theory Spec2Isabelle
  imports Complex_Main "HOL-Library.Word"
begin

section \<open>Audio buffers, byte views and platform errors\<close>

text \<open>
  The audio utilities of the repository (\<^verbatim>\<open>utils/audio.ts\<close>): the PCM decoder
  \<^verbatim>\<open>decodeAudioData\<close>, the WAV encoder \<^verbatim>\<open>bufferToWave\<close> and the voice-sample
  classifier \<^verbatim>\<open>analyzeAudioQuality\<close>.

  An \<^verbatim>\<open>AudioBuffer\<close> is a sample rate and one sample sequence per channel. Samples
  are finite numbers, modelled as reals: the conversions of the codec are exact on
  32-bit floats (a 24-bit mantissa times 32767 or 32768 fits a double, and an int16
  divided by 32768 fits a float), so nothing is rounded there. NaN samples are outside
  the model. The exceptions the platform raises are values of \<open>error\<close>.
\<close>

type_synonym byte = "8 word"

datatype error = RangeError | NotSupportedError | IndexSizeError

record AudioBuffer =
  sampleRate :: nat
  channels :: "real list list"

definition numberOfChannels :: "AudioBuffer \<Rightarrow> nat" where
  "numberOfChannels b = length (channels b)"

text \<open>\<^verbatim>\<open>buffer.length\<close>: the frame count, the length of every channel.\<close>

definition frameCount :: "AudioBuffer \<Rightarrow> nat" where
  "frameCount b = (case channels b of [] \<Rightarrow> 0 | c # _ \<Rightarrow> length c)"

text \<open>\<^verbatim>\<open>buffer.duration\<close>: frames over sample rate, in seconds.\<close>

definition duration :: "AudioBuffer \<Rightarrow> real" where
  "duration b = real (frameCount b) / real (sampleRate b)"

text \<open>
  What the platform guarantees of every \<^verbatim>\<open>AudioBuffer\<close>: a positive sample rate, at
  least one channel, at least one frame, and channels of one length.
\<close>

definition wellFormed :: "AudioBuffer \<Rightarrow> bool" where
  "wellFormed b = (0 < sampleRate b \<and> channels b \<noteq> [] \<and> 0 < frameCount b \<and>
     list_all (\<lambda>c. length c = frameCount b) (channels b))"

definition bindE :: "error + 'a \<Rightarrow> ('a \<Rightarrow> error + 'b) \<Rightarrow> error + 'b" where
  "bindE m f = (case m of Inl e \<Rightarrow> Inl e | Inr x \<Rightarrow> f x)"

subsection \<open>DataView: little-endian reads and writes with a bounds check\<close>

definition byteOf :: "nat \<Rightarrow> int \<Rightarrow> byte" where
  "byteOf k n = word_of_int ((n div 256 ^ k) mod 256)"

definition viewSetUint16 :: "byte list \<Rightarrow> nat \<Rightarrow> 16 word \<Rightarrow> error + byte list" where
  "viewSetUint16 view p w =
     (if p + 2 \<le> length view
      then Inr (view[p := byteOf 0 (uint w), p + 1 := byteOf 1 (uint w)])
      else Inl RangeError)"

definition viewSetUint32 :: "byte list \<Rightarrow> nat \<Rightarrow> 32 word \<Rightarrow> error + byte list" where
  "viewSetUint32 view p w =
     (if p + 4 \<le> length view
      then Inr (view[p := byteOf 0 (uint w), p + 1 := byteOf 1 (uint w),
                     p + 2 := byteOf 2 (uint w), p + 3 := byteOf 3 (uint w)])
      else Inl RangeError)"

text \<open>\<^verbatim>\<open>view.setInt16(p, v, true)\<close>: the number is taken modulo \<open>2 ^ 16\<close> (ToInt16).\<close>

definition viewSetInt16 :: "byte list \<Rightarrow> nat \<Rightarrow> int \<Rightarrow> error + byte list" where
  "viewSetInt16 view p v = viewSetUint16 view p (word_of_int v)"

definition getUint16 :: "byte list \<Rightarrow> nat \<Rightarrow> 16 word" where
  "getUint16 view p = word_of_int (uint (view ! p) + 256 * uint (view ! (p + 1)))"

definition getUint32 :: "byte list \<Rightarrow> nat \<Rightarrow> 32 word" where
  "getUint32 view p =
     word_of_int (uint (view ! p) + 256 * uint (view ! (p + 1)) +
                  65536 * uint (view ! (p + 2)) + 16777216 * uint (view ! (p + 3)))"

definition getInt16 :: "byte list \<Rightarrow> nat \<Rightarrow> int" where
  "getInt16 view p = sint (getUint16 view p)"

section \<open>The WAV encoder \<^verbatim>\<open>bufferToWave\<close>\<close>

text \<open>
  The nested helpers \<^verbatim>\<open>setUint16\<close> and \<^verbatim>\<open>setUint32\<close> write at the cursor \<^verbatim>\<open>pos\<close> of the
  enclosing function and advance it: the state is the view and the cursor.
\<close>

definition setUint16 :: "16 word \<Rightarrow> byte list \<times> nat \<Rightarrow> error + byte list \<times> nat" where
  "setUint16 d st = (case st of (view, pos) \<Rightarrow>
     bindE (viewSetUint16 view pos d) (\<lambda>view'. Inr (view', pos + 2)))"

definition setUint32 :: "32 word \<Rightarrow> byte list \<times> nat \<Rightarrow> error + byte list \<times> nat" where
  "setUint32 d st = (case st of (view, pos) \<Rightarrow>
     bindE (viewSetUint32 view pos d) (\<lambda>view'. Inr (view', pos + 4)))"

definition writeHeader ::
  "AudioBuffer \<Rightarrow> nat \<Rightarrow> byte list \<times> nat \<Rightarrow> error + byte list \<times> nat" where
  "writeHeader abuffer totalLength st0 =
    (let numOfChan = numberOfChannels abuffer in
     bindE (setUint32 0x46464952 st0) (\<lambda>st.
     bindE (setUint32 (of_nat (totalLength - 8)) st) (\<lambda>st.
     bindE (setUint32 0x45564157 st) (\<lambda>st.
     bindE (setUint32 0x20746d66 st) (\<lambda>st.
     bindE (setUint32 16 st) (\<lambda>st.
     bindE (setUint16 1 st) (\<lambda>st.
     bindE (setUint16 (of_nat numOfChan) st) (\<lambda>st.
     bindE (setUint32 (of_nat (sampleRate abuffer)) st) (\<lambda>st.
     bindE (setUint32 (of_nat (sampleRate abuffer * 2 * numOfChan)) st) (\<lambda>st.
     bindE (setUint16 (of_nat (numOfChan * 2)) st) (\<lambda>st.
     bindE (setUint16 16 st) (\<lambda>st.
     bindE (setUint32 0x61746164 st) (\<lambda>st.
     setUint32 (of_nat (totalLength - snd st - 4)) st)))))))))))))"

text \<open>
  The sample conversion of the loop body. \<^verbatim>\<open>Math.max(-1, Math.min(1, x))\<close> clamps;
  the conditional picks the scale by the test \<^verbatim>\<open>0.5 + sample < 0\<close>; \<^verbatim>\<open>| 0\<close> is ToInt32:
  truncation toward zero, then the value modulo \<open>2 ^ 32\<close> read as signed.
\<close>

definition clampSample :: "real \<Rightarrow> real" where
  "clampSample x = max (- 1) (min 1 x)"

definition truncToZero :: "real \<Rightarrow> int" where
  "truncToZero x = (if x < 0 then \<lceil>x\<rceil> else \<lfloor>x\<rfloor>)"

definition toInt32 :: "real \<Rightarrow> int" where
  "toInt32 x = sint (word_of_int (truncToZero x) :: 32 word)"

definition scaleSample :: "real \<Rightarrow> int" where
  "scaleSample s = toInt32 (if 0.5 + s < 0 then s * 32768 else s * 32767)"

text \<open>
  \<^verbatim>\<open>channels[i][pos]\<close> past the end of the channel is \<^verbatim>\<open>undefined\<close>; the clamp makes it
  NaN and \<^verbatim>\<open>NaN | 0\<close> is 0.
\<close>

definition sampleAt :: "real list \<Rightarrow> nat \<Rightarrow> int" where
  "sampleAt ch pos = (if pos < length ch then scaleSample (clampSample (ch ! pos)) else 0)"

text \<open>The inner \<^verbatim>\<open>for\<close> loop: one 16-bit word per channel, \<^verbatim>\<open>offset\<close> advanced by 2.\<close>

fun writeFrame ::
  "real list list \<Rightarrow> nat \<Rightarrow> byte list \<times> nat \<Rightarrow> error + byte list \<times> nat" where
  "writeFrame [] pos st = Inr st"
| "writeFrame (ch # chs) pos (view, offset) =
     bindE (viewSetInt16 view (44 + offset) (sampleAt ch pos))
       (\<lambda>view'. writeFrame chs pos (view', offset + 2))"

text \<open>The \<^verbatim>\<open>while (pos < len)\<close> loop.\<close>

function writeFrames ::
  "real list list \<Rightarrow> nat \<Rightarrow> nat \<Rightarrow> byte list \<times> nat \<Rightarrow> error + byte list \<times> nat" where
  "writeFrames chs len pos st =
     (if pos < len
      then bindE (writeFrame chs pos st) (\<lambda>st'. writeFrames chs len (pos + 1) st')
      else Inr st)"
  by pat_completeness auto
termination
  by (relation "measure (\<lambda>(chs, len, pos, st). len - pos)") auto

declare writeFrames.simps [simp del]

text \<open>
  \<^verbatim>\<open>len\<close> is a frame count (the caller passes \<^verbatim>\<open>abuffer.length\<close>), so the buffer of
  \<open>len * numOfChan * 2 + 44\<close> bytes can be allocated and holds the header. The cursor
  \<^verbatim>\<open>pos\<close> that the header writes leave behind is the one the \<^verbatim>\<open>while\<close> loop goes on with.
\<close>

definition bufferToWave :: "AudioBuffer \<Rightarrow> nat \<Rightarrow> error + byte list" where
  "bufferToWave abuffer len =
    (let numOfChan = numberOfChannels abuffer;
         totalLength = len * numOfChan * 2 + 44;
         view = replicate totalLength (0 :: byte)
     in bindE (writeHeader abuffer totalLength (view, 0)) (\<lambda>(view1, pos).
        bindE (writeFrames (channels abuffer) len pos (view1, 0)) (\<lambda>(view2, offset).
        Inr view2)))"

section \<open>The PCM decoder \<^verbatim>\<open>decodeAudioData\<close>\<close>

text \<open>
  The function takes the bytes that \<^verbatim>\<open>decodeBase64\<close> (the platform's \<^verbatim>\<open>atob\<close>) returns.
  Two platform calls can raise. \<^verbatim>\<open>new Int16Array(bytes.buffer)\<close> raises a RangeError
  when the byte length is odd. \<^verbatim>\<open>ctx.createBuffer\<close> of the Web Audio API raises a
  NotSupportedError when one of its arguments is negative, zero or outside its nominal
  range: the channel count must be between 1 and the context's maximum, the length,
  converted to an unsigned integer by truncation, must be at least one frame, and the
  sample rate must be one the context supports. The limits are those of the context
  \<^verbatim>\<open>ctx\<close>, a parameter of the function.
\<close>

record AudioContext =
  maxChannelCount :: nat
  minSampleRate :: nat
  maxSampleRate :: nat

text \<open>The ranges every implementation of the Web Audio API has to support.\<close>

definition standardContext :: AudioContext where
  "standardContext = \<lparr>maxChannelCount = 32, minSampleRate = 8000, maxSampleRate = 96000\<rparr>"

definition createBuffer :: "AudioContext \<Rightarrow> int \<Rightarrow> real \<Rightarrow> nat \<Rightarrow> error + AudioBuffer" where
  "createBuffer ctx nChannels len rate =
     (if nChannels < 1 \<or> int (maxChannelCount ctx) < nChannels
         \<or> truncToZero len < 1
         \<or> rate < minSampleRate ctx \<or> maxSampleRate ctx < rate
      then Inl NotSupportedError
      else Inr \<lparr>sampleRate = rate,
                channels = replicate (nat nChannels) (replicate (nat (truncToZero len)) 0)\<rparr>)"

text \<open>\<^verbatim>\<open>dataInt16[k]\<close>: the \<open>k\<close>-th little-endian signed 16-bit word of the bytes.\<close>

definition int16Array :: "byte list \<Rightarrow> int list" where
  "int16Array bytes = map (\<lambda>k. getInt16 bytes (2 * k)) [0..<length bytes div 2]"

definition int16ToFloat :: "int \<Rightarrow> real" where
  "int16ToFloat v = real_of_int v / 32768"

text \<open>
  \<^verbatim>\<open>channelData[i] = dataInt16[k] / 32768.0\<close>. A write past the end of a Float32Array is
  dropped. A read past the end of \<open>dataInt16\<close> would give NaN; it only happens where the
  write is dropped as well (lemma \<open>decode_reads_in_range\<close>).
\<close>

definition storeSample :: "real list \<Rightarrow> nat \<Rightarrow> int list \<Rightarrow> nat \<Rightarrow> real list" where
  "storeSample channelData i dataInt16 k =
     (if i < length channelData \<and> k < length dataInt16
      then channelData[i := int16ToFloat (dataInt16 ! k)]
      else channelData)"

text \<open>The inner loop \<^verbatim>\<open>for (i = 0; i < frameCount; i++)\<close>; \<open>frameCount\<close> need not be whole.\<close>

function fillChannel ::
  "int list \<Rightarrow> nat \<Rightarrow> nat \<Rightarrow> real \<Rightarrow> nat \<Rightarrow> real list \<Rightarrow> real list" where
  "fillChannel dataInt16 numChannels channel frames i channelData =
     (if real i < frames
      then fillChannel dataInt16 numChannels channel frames (i + 1)
             (storeSample channelData i dataInt16 (i * numChannels + channel))
      else channelData)"
  by pat_completeness auto
termination
  by (relation "measure (\<lambda>(d, n, c, frames, i, cd). nat \<lceil>frames\<rceil> - i)") (auto, linarith)

declare fillChannel.simps [simp del]

text \<open>The outer loop \<^verbatim>\<open>for (channel = 0; channel < numChannels; channel++)\<close>.\<close>

function fillChannels ::
  "int list \<Rightarrow> nat \<Rightarrow> real \<Rightarrow> nat \<Rightarrow> real list list \<Rightarrow> real list list" where
  "fillChannels dataInt16 numChannels frames channel chans =
     (if channel < numChannels
      then fillChannels dataInt16 numChannels frames (channel + 1)
             (if channel < length chans
              then chans[channel := fillChannel dataInt16 numChannels channel frames 0 (chans ! channel)]
              else chans)
      else chans)"
  by pat_completeness auto
termination
  by (relation "measure (\<lambda>(d, n, frames, c, chans). n - c)") auto

declare fillChannels.simps [simp del]

text \<open>
  \<^verbatim>\<open>frameCount = dataInt16.length / numChannels\<close> is a division of numbers, not rounded.
  With \<open>numChannels = 0\<close> it is Infinity or NaN, which \<^verbatim>\<open>createBuffer\<close> never looks at: the
  channel count is refused first.
\<close>

definition decodeAudioData ::
  "AudioContext \<Rightarrow> byte list \<Rightarrow> nat \<Rightarrow> int \<Rightarrow> error + AudioBuffer" where
  "decodeAudioData ctx bytes rate numChannels =
     (if odd (length bytes) then Inl RangeError
      else
        let dataInt16 = int16Array bytes;
            frames = real (length dataInt16) / real_of_int numChannels
        in bindE (createBuffer ctx numChannels frames rate) (\<lambda>buffer.
             Inr (buffer\<lparr>channels :=
               fillChannels dataInt16 (nat numChannels) frames 0 (channels buffer)\<rparr>)))"

section \<open>The classifier \<^verbatim>\<open>analyzeAudioQuality\<close>\<close>

text \<open>
  The arithmetic of the classifier is modelled on the reals. Each \<^verbatim>\<open>const\<close> of the source
  is a definition of the same name, a function of the channel-0 samples \<open>data\<close> and the
  sample rate; each loop is a recursive function over its mutable variables.
\<close>

record AudioAnalysisResult =
  valid :: bool
  reason :: "string option"
  score :: int

text \<open>
  A call returns a result, raises, or does not return: with a window size of 0 samples
  (a sample rate below 20 Hz) \<open>totalWindows\<close> is Infinity and the window loop never ends.
\<close>

datatype outcome = Returns AudioAnalysisResult | Throws error | Diverges

subsection \<open>\<^verbatim>\<open>calculateZCR\<close>\<close>

fun zeroCrossings :: "real list \<Rightarrow> nat" where
  "zeroCrossings [] = 0"
| "zeroCrossings [a] = 0"
| "zeroCrossings (a # b # rest) =
     (if (b \<ge> 0 \<and> a < 0) \<or> (b < 0 \<and> a \<ge> 0) then 1 else 0) + zeroCrossings (b # rest)"

definition calculateZCR :: "real list \<Rightarrow> real" where
  "calculateZCR buffer = real (zeroCrossings buffer) / real (length buffer)"

subsection \<open>The window loop: RMS, ZCR and the running peak\<close>

record WindowStats =
  globalPeak :: real
  totalRMS :: real
  windowRMSs :: "real list"
  windowZCRs :: "real list"

definition slice :: "real list \<Rightarrow> nat \<Rightarrow> nat \<Rightarrow> real list" where
  "slice xs a b = take (b - a) (drop a xs)"

text \<open>The loop over the samples of one window: the peak and the sum of squares.\<close>

fun sampleLoop :: "real list \<Rightarrow> real \<times> real \<Rightarrow> real \<times> real" where
  "sampleLoop [] acc = acc"
| "sampleLoop (sample # rest) (peak, sumSquares) =
     sampleLoop rest (if \<bar>sample\<bar> > peak then \<bar>sample\<bar> else peak, sumSquares + sample * sample)"

function windowLoop :: "real list \<Rightarrow> nat \<Rightarrow> nat \<Rightarrow> nat \<Rightarrow> WindowStats \<Rightarrow> WindowStats" where
  "windowLoop data windowSize nWindows i st =
     (if i < nWindows
      then
        let windowData = slice data (i * windowSize) ((i + 1) * windowSize);
            (peak, sumSquares) = sampleLoop windowData (globalPeak st, 0);
            rms = sqrt (sumSquares / real windowSize);
            zcr = calculateZCR windowData
        in windowLoop data windowSize nWindows (i + 1)
             \<lparr>globalPeak = peak, totalRMS = totalRMS st + rms,
              windowRMSs = windowRMSs st @ [rms], windowZCRs = windowZCRs st @ [zcr]\<rparr>
      else st)"
  by pat_completeness auto
termination
  by (relation "measure (\<lambda>(data, windowSize, nWindows, i, st). nWindows - i)") auto

declare windowLoop.simps [simp del]

definition windowSizeSamples :: "nat \<Rightarrow> nat" where
  "windowSizeSamples rate = nat \<lfloor>real rate * 0.05\<rfloor>"

text \<open>\<^verbatim>\<open>Math.floor(data.length / windowSizeSamples)\<close>, for a window size that is not 0.\<close>

definition totalWindows :: "real list \<Rightarrow> nat \<Rightarrow> nat" where
  "totalWindows data rate = nat \<lfloor>real (length data) / real (windowSizeSamples rate)\<rfloor>"

definition windowStats :: "real list \<Rightarrow> nat \<Rightarrow> WindowStats" where
  "windowStats data rate =
     windowLoop data (windowSizeSamples rate) (totalWindows data rate) 0
       \<lparr>globalPeak = 0, totalRMS = 0, windowRMSs = [], windowZCRs = []\<rparr>"

definition avgRMS :: "real list \<Rightarrow> nat \<Rightarrow> real" where
  "avgRMS data rate = totalRMS (windowStats data rate) / real (totalWindows data rate)"

subsection \<open>The rhythm loop: active windows, energy peaks and pauses\<close>

definition dynamicThreshold :: "real list \<Rightarrow> nat \<Rightarrow> real" where
  "dynamicThreshold data rate = max (avgRMS data rate * 0.4) 0.02"

record RhythmStats =
  quietWindows :: nat
  longestPauseWindows :: nat
  currentPauseRun :: nat
  activeWindowsCount :: nat
  activeZCRs :: "real list"
  peakCount :: nat

definition rhythmStep ::
  "real list \<Rightarrow> real list \<Rightarrow> real \<Rightarrow> real \<Rightarrow> nat \<Rightarrow> RhythmStats \<Rightarrow> RhythmStats" where
  "rhythmStep rmss zcrs avg threshold i st =
     (let prev = rmss ! (i - 1);
          curr = rmss ! i;
          next = rmss ! (i + 1);
          st1 = (if curr > threshold
                 then st\<lparr>activeWindowsCount := activeWindowsCount st + 1,
                         activeZCRs := activeZCRs st @ [zcrs ! i],
                         peakCount := (if curr > prev \<and> curr > next \<and> curr > avg * 0.8
                                       then peakCount st + 1 else peakCount st)\<rparr>
                 else st)
      in if curr < threshold
         then st1\<lparr>quietWindows := quietWindows st1 + 1,
                  currentPauseRun := currentPauseRun st1 + 1\<rparr>
         else if currentPauseRun st1 > 0
              then st1\<lparr>longestPauseWindows := max (longestPauseWindows st1) (currentPauseRun st1),
                       currentPauseRun := 0\<rparr>
              else st1)"

text \<open>\<^verbatim>\<open>for (let i = 1; i < windowRMSs.length - 1; i++)\<close>: the first and the last window
  are not visited.\<close>

function rhythmLoop ::
  "real list \<Rightarrow> real list \<Rightarrow> real \<Rightarrow> real \<Rightarrow> nat \<Rightarrow> RhythmStats \<Rightarrow> RhythmStats" where
  "rhythmLoop rmss zcrs avg threshold i st =
     (if int i < int (length rmss) - 1
      then rhythmLoop rmss zcrs avg threshold (i + 1) (rhythmStep rmss zcrs avg threshold i st)
      else st)"
  by pat_completeness auto
termination
  by (relation "measure (\<lambda>(rmss, zcrs, avg, threshold, i, st). length rmss - i)") auto

declare rhythmLoop.simps [simp del]

definition rhythmStats :: "real list \<Rightarrow> nat \<Rightarrow> RhythmStats" where
  "rhythmStats data rate =
     (let st = rhythmLoop (windowRMSs (windowStats data rate)) (windowZCRs (windowStats data rate))
                 (avgRMS data rate) (dynamicThreshold data rate) 1
                 \<lparr>quietWindows = 0, longestPauseWindows = 0, currentPauseRun = 0,
                  activeWindowsCount = 0, activeZCRs = [], peakCount = 0\<rparr>
      in st\<lparr>longestPauseWindows := max (longestPauseWindows st) (currentPauseRun st)\<rparr>)"

definition quietRatio :: "real list \<Rightarrow> nat \<Rightarrow> real" where
  "quietRatio data rate = real (quietWindows (rhythmStats data rate)) / real (totalWindows data rate)"

definition activeDurationSec :: "real list \<Rightarrow> nat \<Rightarrow> real" where
  "activeDurationSec data rate = real (activeWindowsCount (rhythmStats data rate)) * 0.05"

definition peaksPerSecond :: "real list \<Rightarrow> nat \<Rightarrow> real" where
  "peaksPerSecond data rate =
     (if activeDurationSec data rate > 0
      then real (peakCount (rhythmStats data rate)) / activeDurationSec data rate else 0)"

subsection \<open>Spread of the zero-crossing rates and of the RMS values\<close>

definition avgZCR :: "real list \<Rightarrow> nat \<Rightarrow> real" where
  "avgZCR data rate =
     (let zs = activeZCRs (rhythmStats data rate)
      in if length zs > 0 then fold (\<lambda>z zcrSum. zcrSum + z) zs 0 / real (length zs) else 0)"

definition zcrStdDev :: "real list \<Rightarrow> nat \<Rightarrow> real" where
  "zcrStdDev data rate =
     (let zs = activeZCRs (rhythmStats data rate);
          zcrVarianceSum = fold (\<lambda>z acc. acc + (z - avgZCR data rate) ^ 2) zs 0
      in if length zs > 0 then sqrt (zcrVarianceSum / real (length zs)) else 0)"

definition stdDevRMS :: "real list \<Rightarrow> nat \<Rightarrow> real" where
  "stdDevRMS data rate =
     (let sumSquaredDiff =
            fold (\<lambda>rms acc. acc + (rms - avgRMS data rate) ^ 2) (windowRMSs (windowStats data rate)) 0
      in sqrt (sumSquaredDiff / real (totalWindows data rate)))"

definition variationCoefficient :: "real list \<Rightarrow> nat \<Rightarrow> real" where
  "variationCoefficient data rate = stdDevRMS data rate / avgRMS data rate"

subsection \<open>Scoring and the verdict\<close>

text \<open>The deductions from 100, then \<^verbatim>\<open>Math.max(0, Math.min(100, Math.round(score)))\<close>;
  the score is whole, so rounding changes nothing.\<close>

definition scoreOf :: "real list \<Rightarrow> nat \<Rightarrow> int" where
  "scoreOf data rate =
     (let s0 = (100 :: int);
          s1 = (if avgRMS data rate < 0.05 then s0 - 15
                else if avgRMS data rate < 0.1 then s0 - 5 else s0);
          s2 = (if globalPeak (windowStats data rate) > 0.95 then s1 - 10 else s1);
          s3 = (if quietRatio data rate < 0.15 then s2 - 20 else s2);
          s4 = (if variationCoefficient data rate < 0.25 then s3 - 15 else s3);
          s5 = (if zcrStdDev data rate < 0.005 then s4 - 10 else s4);
          s6 = (if peaksPerSecond data rate < 1.5 \<or> peaksPerSecond data rate > 8.0
                then s5 - 10 else s5)
      in max 0 (min 100 s6))"

definition msgTooShort :: string where
  "msgTooShort = ''Recording is too short (< 3s). Please upload at least 3-5 seconds of continuous speech.''"

definition msgTooLarge :: string where
  "msgTooLarge = ''File is too large (> 5m). Please trim your clip to a shorter sample for faster processing.''"

definition msgTooQuiet :: string where
  "msgTooQuiet = ''Audio is too quiet. We can't hear the voice clearly. Please record closer to the microphone.''"

definition msgDistorted :: string where
  "msgDistorted = ''Audio is distorted (too loud). This causes artifacts. Please lower your volume or move back from the mic.''"

definition msgNoise :: string where
  "msgNoise = ''Background music or noise detected. The AI needs a clean, 'dry' voice recording without background tracks.''"

definition msgRobotic :: string where
  "msgRobotic = ''Voice sounds robotic or over-processed. Please use a natural recording with normal speaking intonation.''"

definition msgSilence :: string where
  "msgSilence = ''Too much silence detected. The file is mostly empty. Please trim the silent parts so we can hear your voice.''"

definition msgTooSlow :: string where
  "msgTooSlow = ''Speech is too slow. Please speak at a natural, conversational pace for best cloning results.''"

definition msgTooFast :: string where
  "msgTooFast = ''Speech is too fast/rushed. Please speak clearly at a moderate pace so the AI can capture articulation.''"

definition msgMonotone :: string where
  "msgMonotone = ''Voice lacks pitch variation (monotone). Try speaking with more emotion and tonal range.''"

definition invalid :: "string \<Rightarrow> int \<Rightarrow> outcome" where
  "invalid msg sc = Returns \<lparr>valid = False, reason = Some msg, score = sc\<rparr>"

text \<open>The checks after the window loop, in the order of the source.\<close>

definition verdict :: "real list \<Rightarrow> nat \<Rightarrow> outcome" where
  "verdict data rate =
     (if avgRMS data rate < 0.01 then invalid msgTooQuiet 20
      else if globalPeak (windowStats data rate) > 0.99 \<and> avgRMS data rate > 0.5
      then invalid msgDistorted 30
      else if quietRatio data rate < 0.02 \<and> variationCoefficient data rate < 0.5
      then invalid msgNoise (min (scoreOf data rate) 40)
      else if variationCoefficient data rate < 0.15
      then invalid msgRobotic (min (scoreOf data rate) 45)
      else if quietRatio data rate > 0.95
      then invalid msgSilence (min (scoreOf data rate) 30)
      else if peaksPerSecond data rate < 0.5 \<and> activeDurationSec data rate > 2
      then invalid msgTooSlow (min (scoreOf data rate) 50)
      else if peaksPerSecond data rate > 15.0
      then invalid msgTooFast (min (scoreOf data rate) 50)
      else if zcrStdDev data rate < 0.001 \<and> activeDurationSec data rate > 3
      then invalid msgMonotone (min (scoreOf data rate) 55)
      else Returns \<lparr>valid = True, reason = None, score = scoreOf data rate\<rparr>)"

text \<open>
  \<^verbatim>\<open>buffer.getChannelData(0)\<close> raises an IndexSizeError on a buffer without channels
  (the platform makes none). Then the two duration checks, the window size, and the rest.
\<close>

definition analyzeAudioQuality :: "AudioBuffer \<Rightarrow> outcome" where
  "analyzeAudioQuality buffer =
     (case channels buffer of
        [] \<Rightarrow> Throws IndexSizeError
      | data # _ \<Rightarrow>
          if duration buffer < 3.0 then invalid msgTooShort 0
          else if duration buffer > 300 then invalid msgTooLarge 0
          else if windowSizeSamples (sampleRate buffer) = 0 then Diverges
          else verdict data (sampleRate buffer))"

section \<open>Reading a WAV header back\<close>

text \<open>
  The 44-byte canonical header as a record, read from a byte sequence at the offsets of
  the RIFF/WAVE layout: tags are four bytes of text, sizes and rates are little-endian
  32-bit words, the format fields little-endian 16-bit words.
\<close>

record WavHeader =
  chunkID :: "byte list"
  chunkSize :: "32 word"
  format :: "byte list"
  subchunk1ID :: "byte list"
  subchunk1Size :: "32 word"
  audioFormat :: "16 word"
  numChannels :: "16 word"
  sampleRateField :: "32 word"
  byteRate :: "32 word"
  blockAlign :: "16 word"
  bitsPerSample :: "16 word"
  subchunk2ID :: "byte list"
  subchunk2Size :: "32 word"

definition ascii :: "string \<Rightarrow> byte list" where
  "ascii s = map (\<lambda>c. of_nat (of_char c)) s"

definition bytesAt :: "byte list \<Rightarrow> nat \<Rightarrow> byte list" where
  "bytesAt view p = [view ! p, view ! (p + 1), view ! (p + 2), view ! (p + 3)]"

definition readHeader :: "byte list \<Rightarrow> WavHeader" where
  "readHeader view =
    \<lparr>chunkID = bytesAt view 0, chunkSize = getUint32 view 4, format = bytesAt view 8,
     subchunk1ID = bytesAt view 12, subchunk1Size = getUint32 view 16,
     audioFormat = getUint16 view 20, numChannels = getUint16 view 22,
     sampleRateField = getUint32 view 24, byteRate = getUint32 view 28,
     blockAlign = getUint16 view 32, bitsPerSample = getUint16 view 34,
     subchunk2ID = bytesAt view 36, subchunk2Size = getUint32 view 40\<rparr>"

text \<open>The \<open>k\<close>-th int16 word of the "data" sub-chunk of an encoder result.\<close>

definition dataWord :: "error + byte list \<Rightarrow> nat \<Rightarrow> error + int" where
  "dataWord r k = (case r of Inl e \<Rightarrow> Inl e | Inr out \<Rightarrow> Inr (getInt16 out (44 + 2 * k)))"

section \<open>Closed forms of the window loop, and sample signals\<close>

text \<open>
  Window \<open>k\<close> of a signal, the RMS of a window, and the running peak over a sequence of
  samples started at \<open>p\<close>: what the window loop computes, without the loop.
\<close>

definition windowAt :: "real list \<Rightarrow> nat \<Rightarrow> nat \<Rightarrow> real list" where
  "windowAt data ws k = slice data (k * ws) ((k + 1) * ws)"

definition rmsOf :: "real list \<Rightarrow> nat \<Rightarrow> real" where
  "rmsOf w ws = sqrt (sum_list (map (\<lambda>x. x * x) w) / real ws)"

definition peakOver :: "real \<Rightarrow> real list \<Rightarrow> real" where
  "peakOver p xs = Max (insert p ((\<lambda>x. \<bar>x\<bar>) ` set xs))"

text \<open>
  A three-second signal at 8000 Hz, constant within each 50 ms window: bursts of two
  windows at level \<open>4/5\<close> between pauses of two windows.
\<close>

definition voiceLevels :: "real list" where
  "voiceLevels =
     [0, 0, 4/5, 4/5, 0, 0, 4/5, 4/5, 0, 0, 4/5, 4/5, 0, 0, 4/5, 4/5, 0, 0, 4/5, 4/5,
      0, 0, 4/5, 4/5, 0, 0, 4/5, 4/5, 0, 0, 4/5, 4/5, 0, 0, 4/5, 4/5, 0, 0, 4/5, 4/5,
      0, 0, 4/5, 4/5, 0, 0, 4/5, 4/5, 0, 0, 4/5, 4/5, 0, 0, 4/5, 4/5, 0, 0, 4/5, 4/5]"

definition voiceData :: "real list" where
  "voiceData = concat (map (replicate 400) voiceLevels)"

definition voiceBuffer :: AudioBuffer where
  "voiceBuffer = \<lparr>sampleRate = 8000, channels = [voiceData]\<rparr>"

text \<open>Three seconds at 8000 Hz: one silent window, then 59 windows at level \<open>1/2\<close>.\<close>

definition lateStartData :: "real list" where
  "lateStartData = concat (map (replicate 400) (0 # replicate 59 (1 / 2)))"

section \<open>Properties of the byte view\<close>

lemma byteOf_uint: "uint (byteOf k n) = (n div 256 ^ k) mod 256"
  by (simp add: byteOf_def uint_word_of_int)

lemma split2:
  "0 \<le> (x::int) \<Longrightarrow> x < 65536 \<Longrightarrow> x mod 256 + 256 * (x div 256 mod 256) = x"
  by simp

lemma split4:
  assumes "0 \<le> (x::int)" and "x < 4294967296"
  shows "x mod 256 + 256 * (x div 256 mod 256) + 65536 * (x div 65536 mod 256) +
         16777216 * (x div 16777216 mod 256) = x"
proof -
  have d1: "x div 65536 = (x div 256) div 256"
    by (simp add: div_mult2_eq[symmetric])
  have d2: "x div 16777216 = ((x div 256) div 256) div 256"
    by (simp add: div_mult2_eq[symmetric])
  have top: "x div 16777216 mod 256 = x div 16777216"
    using assms by simp
  have e1: "x = 256 * (x div 256) + x mod 256" by simp
  have e2: "x div 256 = 256 * (x div 256 div 256) + x div 256 mod 256" by simp
  have e3: "x div 256 div 256 = 256 * (x div 256 div 256 div 256) + x div 256 div 256 mod 256"
    by simp
  show ?thesis unfolding top unfolding d1 d2 using e1 e2 e3 by linarith
qed

lemma uint32_bound: "uint (w :: 32 word) < 4294967296"
  using uint_lt2p[of w] by simp

lemma uint16_bound: "uint (w :: 16 word) < 65536"
  using uint_lt2p[of w] by simp

lemma word32_bytes:
  "word_of_int (uint w mod 256 + 256 * (uint w div 256 mod 256) +
     65536 * (uint w div 65536 mod 256) + 16777216 * (uint w div 16777216 mod 256)) = (w :: 32 word)"
  by (simp add: split4 uint32_bound)

lemma word16_bytes:
  "word_of_int (uint w mod 256 + 256 * (uint w div 256 mod 256)) = (w :: 16 word)"
  by (simp add: split2 uint16_bound)

lemma word32_bytes_sum:
  "word_of_int (uint w mod 256) + 256 * word_of_int (uint w div 256 mod 256) +
     65536 * word_of_int (uint w div 65536 mod 256) +
     16777216 * word_of_int (uint w div 16777216 mod 256) = (w :: 32 word)"
  using word32_bytes[of w] by simp

lemma word16_bytes_sum:
  "word_of_int (uint w mod 256) + 256 * word_of_int (uint w div 256 mod 256) = (w :: 16 word)"
  using word16_bytes[of w] by simp

lemma getUint16_bytes:
  assumes "p + 2 \<le> length view"
  shows "getUint16 (view[p := byteOf 0 (uint w), p + 1 := byteOf 1 (uint w)]) p = w"
  using assms by (simp add: getUint16_def byteOf_uint split2 uint16_bound)

lemma getUint16_cong:
  "v1 ! p = v2 ! p \<Longrightarrow> v1 ! (p + 1) = v2 ! (p + 1) \<Longrightarrow> getUint16 v1 p = getUint16 v2 p"
  by (simp add: getUint16_def)

lemma getInt16_cong:
  "v1 ! p = v2 ! p \<Longrightarrow> v1 ! (p + 1) = v2 ! (p + 1) \<Longrightarrow> getInt16 v1 p = getInt16 v2 p"
  by (simp add: getInt16_def getUint16_def)

lemma readHeader_cong:
  "(\<forall>i. i < 44 \<longrightarrow> v1 ! i = v2 ! i) \<Longrightarrow> readHeader v1 = readHeader v2"
  by (simp add: readHeader_def bytesAt_def getUint32_def getUint16_def)

lemma sint32_id:
  "- 2147483648 \<le> t \<Longrightarrow> t < 2147483648 \<Longrightarrow> sint (word_of_int t :: 32 word) = t"
  by (simp add: sint_sbintrunc' signed_take_bit_int_eq_self)

lemma sint16_id:
  "- 32768 \<le> t \<Longrightarrow> t < 32768 \<Longrightarrow> sint (word_of_int t :: 16 word) = t"
  by (simp add: sint_sbintrunc' signed_take_bit_int_eq_self)

lemma viewSetInt16_ok:
  "p + 2 \<le> length view \<Longrightarrow>
   \<exists>view'. viewSetInt16 view p v = Inr view' \<and> length view' = length view \<and>
     (\<forall>i. i < p \<longrightarrow> view' ! i = view ! i) \<and>
     getUint16 view' p = word_of_int v"
  using getUint16_bytes[of p view "word_of_int v"]
  by (simp add: viewSetInt16_def viewSetUint16_def)

section \<open>The sample conversion stays within 16 bits\<close>

lemma clampSample_range: "- 1 \<le> clampSample x \<and> clampSample x \<le> 1"
  by (simp add: clampSample_def)

lemma clampSample_id: "- 1 \<le> x \<Longrightarrow> x \<le> 1 \<Longrightarrow> clampSample x = x"
  by (simp add: clampSample_def)

lemma truncToZero_range:
  assumes "real_of_int a \<le> x" and "x \<le> real_of_int b"
  shows "a \<le> truncToZero x \<and> truncToZero x \<le> b"
proof -
  have "real_of_int a \<le> of_int \<lceil>x\<rceil>"
    using assms(1) le_of_int_ceiling[of x] by linarith
  then have 1: "a \<le> \<lceil>x\<rceil>" by simp
  have "real_of_int \<lfloor>x\<rfloor> \<le> of_int b"
    using assms(2) of_int_floor_le[of x] by linarith
  then have 2: "\<lfloor>x\<rfloor> \<le> b" by simp
  have 3: "\<lceil>x\<rceil> \<le> b" using assms(2) by (simp add: ceiling_le_iff)
  have 4: "a \<le> \<lfloor>x\<rfloor>" using assms(1) by (simp add: le_floor_iff)
  show ?thesis using 1 2 3 4 by (simp add: truncToZero_def)
qed

lemma truncToZero_near: "\<bar>real_of_int (truncToZero x) - x\<bar> < 1"
  unfolding truncToZero_def by (cases "x < 0") (simp_all, linarith+)

lemma scaleSample_eq:
  assumes "- 1 \<le> c" and "c \<le> 1"
  shows "scaleSample c = truncToZero (c * (if c < - 1 / 2 then 32768 else 32767))"
proof -
  let ?y = "c * (if c < - 1 / 2 then 32768 else 32767)"
  have "real_of_int (- 32768) \<le> ?y" "?y \<le> real_of_int 32767"
    using assms by auto
  then have "- 32768 \<le> truncToZero ?y \<and> truncToZero ?y \<le> 32767"
    by (rule truncToZero_range)
  then have "sint (word_of_int (truncToZero ?y) :: 32 word) = truncToZero ?y"
    by (intro sint32_id) auto
  moreover have "(0.5 + c < 0) = (c < - 1 / 2)" by auto
  ultimately show ?thesis
    unfolding scaleSample_def toInt32_def by (cases "c < - 1 / 2") simp_all
qed

lemma scaleSample_range:
  assumes "- 1 \<le> c" and "c \<le> 1"
  shows "- 32768 \<le> scaleSample c \<and> scaleSample c \<le> 32767"
proof -
  let ?y = "c * (if c < - 1 / 2 then 32768 else 32767)"
  have "real_of_int (- 32768) \<le> ?y" "?y \<le> real_of_int 32767"
    using assms by auto
  then have "- 32768 \<le> truncToZero ?y \<and> truncToZero ?y \<le> 32767"
    by (rule truncToZero_range)
  then show ?thesis using scaleSample_eq[OF assms] by simp
qed

lemma sampleAt_range: "- 32768 \<le> sampleAt ch pos \<and> sampleAt ch pos \<le> 32767"
  using scaleSample_range[of "clampSample (ch ! pos)"] clampSample_range[of "ch ! pos"]
  by (simp add: sampleAt_def)

lemma sampleAt_eq:
  assumes "pos < length ch"
  shows "sampleAt ch pos =
    truncToZero (clampSample (ch ! pos) *
      (if clampSample (ch ! pos) < - 1 / 2 then 32768 else 32767))"
  using assms scaleSample_eq[of "clampSample (ch ! pos)"] clampSample_range[of "ch ! pos"]
  by (simp add: sampleAt_def)

text \<open>Quantizing with the encoder's scale and reading back with the decoder's.\<close>

lemma sampleAt_roundtrip:
  assumes "pos < length ch" and "- 1 \<le> ch ! pos" and "ch ! pos \<le> 1"
  shows "\<bar>int16ToFloat (sampleAt ch pos) - ch ! pos\<bar> < 1 / 16384"
proof -
  let ?c = "ch ! pos"
  let ?k = "if ?c < - 1 / 2 then 32768 else 32767 :: real"
  have s: "sampleAt ch pos = truncToZero (?c * ?k)"
    using sampleAt_eq[OF assms(1)] clampSample_id[OF assms(2,3)] by simp
  have near: "\<bar>real_of_int (truncToZero (?c * ?k)) - ?c * ?k\<bar> < 1"
    by (rule truncToZero_near)
  have "\<bar>real_of_int (truncToZero (?c * ?k)) - ?c * 32768\<bar> < 2"
  proof (cases "?c < - 1 / 2")
    case True
    then show ?thesis using near by simp
  next
    case False
    then have "?c * 32768 = ?c * ?k + ?c" by simp
    then show ?thesis using near assms(2,3) by (simp add: abs_if split: if_splits)
  qed
  then have "\<bar>real_of_int (truncToZero (?c * ?k)) / 32768 - ?c\<bar> < 1 / 16384"
    by (simp add: abs_if field_simps split: if_splits)
  then show ?thesis using s by (simp add: int16ToFloat_def)
qed

section \<open>The loops of the encoder\<close>

lemma writeFrame_ok:
  "44 + offset + 2 * length chs \<le> length view \<Longrightarrow>
   \<exists>view'. writeFrame chs pos (view, offset) = Inr (view', offset + 2 * length chs) \<and>
     length view' = length view \<and>
     (\<forall>i. i < 44 + offset \<longrightarrow> view' ! i = view ! i) \<and>
     (\<forall>j. j < length chs \<longrightarrow> getInt16 view' (44 + offset + 2 * j) = sampleAt (chs ! j) pos)"
proof (induction chs arbitrary: view offset)
  case Nil
  then show ?case by simp
next
  case (Cons ch chs)
  from Cons.prems have "44 + offset + 2 \<le> length view" by simp
  from viewSetInt16_ok[OF this, of "sampleAt ch pos"] obtain view1 where
    v1: "viewSetInt16 view (44 + offset) (sampleAt ch pos) = Inr view1"
        "length view1 = length view"
        "\<forall>i. i < 44 + offset \<longrightarrow> view1 ! i = view ! i"
        "getUint16 view1 (44 + offset) = word_of_int (sampleAt ch pos)" by blast
  from Cons.prems v1(2) have "44 + (offset + 2) + 2 * length chs \<le> length view1" by simp
  from Cons.IH[OF this] obtain view2 where
    v2: "writeFrame chs pos (view1, offset + 2) = Inr (view2, offset + 2 + 2 * length chs)"
        "length view2 = length view1"
        "\<forall>i. i < 44 + (offset + 2) \<longrightarrow> view2 ! i = view1 ! i"
        "\<forall>j. j < length chs \<longrightarrow>
           getInt16 view2 (44 + (offset + 2) + 2 * j) = sampleAt (chs ! j) pos"
    by blast
  have w: "writeFrame (ch # chs) pos (view, offset) = Inr (view2, offset + 2 * length (ch # chs))"
    using v1(1) v2(1) by (simp add: bindE_def)
  have keep: "\<forall>i. i < 44 + offset \<longrightarrow> view2 ! i = view ! i"
  proof (intro allI impI)
    fix i assume i: "i < 44 + offset"
    then have "view2 ! i = view1 ! i" using v2(3)[rule_format, of i] by simp
    also have "\<dots> = view ! i" using v1(3) i by blast
    finally show "view2 ! i = view ! i" .
  qed
  have first: "getInt16 view2 (44 + offset) = sampleAt ch pos"
  proof -
    have a: "view2 ! (44 + offset) = view1 ! (44 + offset)"
      using v2(3)[rule_format, of "44 + offset"] by simp
    have b: "view2 ! (44 + offset + 1) = view1 ! (44 + offset + 1)"
      using v2(3)[rule_format, of "44 + offset + 1"] by simp
    have "getUint16 view2 (44 + offset) = getUint16 view1 (44 + offset)"
      using a b by (rule getUint16_cong)
    then show ?thesis using v1(4) sampleAt_range[of ch pos]
      by (simp add: getInt16_def sint16_id)
  qed
  have rest: "getInt16 view2 (44 + offset + 2 * j) = sampleAt ((ch # chs) ! j) pos"
    if "j < length (ch # chs)" for j
  proof (cases j)
    case 0
    then show ?thesis using first by simp
  next
    case (Suc k)
    then have "k < length chs" using that by simp
    with v2(4) have "getInt16 view2 (44 + (offset + 2) + 2 * k) = sampleAt (chs ! k) pos"
      by blast
    moreover have "44 + (offset + 2) + 2 * k = 44 + offset + 2 * j" using Suc by simp
    moreover have "(ch # chs) ! j = chs ! k" using Suc by simp
    ultimately show ?thesis by metis
  qed
  have len: "length view2 = length view" using v2(2) v1(2) by simp
  from rest have rest': "\<forall>j. j < length (ch # chs) \<longrightarrow>
      getInt16 view2 (44 + offset + 2 * j) = sampleAt ((ch # chs) ! j) pos" by blast
  show ?case using w len keep rest' by blast
qed

lemma writeFrames_data:
  "44 + offset + 2 * length chs * (len - pos) \<le> length view \<Longrightarrow>
   \<exists>view' offset'. writeFrames chs len pos (view, offset) = Inr (view', offset') \<and>
     length view' = length view \<and>
     (\<forall>i. i < 44 + offset \<longrightarrow> view' ! i = view ! i) \<and>
     (\<forall>p j. pos \<le> p \<and> p < len \<and> j < length chs \<longrightarrow>
        getInt16 view' (44 + offset + 2 * ((p - pos) * length chs + j)) = sampleAt (chs ! j) p)"
proof (induction chs len pos "(view, offset)" arbitrary: view offset rule: writeFrames.induct)
  case (1 chs len pos)
  show ?case
  proof (cases "pos < len")
    case False
    then show ?thesis by (simp add: writeFrames.simps)
  next
    case True
    let ?n = "length chs"
    have "2 * ?n * (len - pos) = 2 * ?n + 2 * ?n * (len - (pos + 1))"
    proof -
      from True have "len - pos = Suc (len - (pos + 1))" by simp
      then show ?thesis by simp
    qed
    with "1.prems" have p: "44 + offset + 2 * ?n \<le> length view"
      "44 + (offset + 2 * ?n) + 2 * ?n * (len - (pos + 1)) \<le> length view" by simp_all
    from writeFrame_ok[OF p(1), of pos] obtain view1 where
      v1: "writeFrame chs pos (view, offset) = Inr (view1, offset + 2 * ?n)"
          "length view1 = length view" "\<forall>i. i < 44 + offset \<longrightarrow> view1 ! i = view ! i"
          "\<forall>j. j < ?n \<longrightarrow> getInt16 view1 (44 + offset + 2 * j) = sampleAt (chs ! j) pos"
      by blast
    from p(2) v1(2)
    have "44 + (offset + 2 * ?n) + 2 * ?n * (len - (pos + 1)) \<le> length view1" by simp
    from "1.hyps"[OF True this] obtain view2 offset2 where
      v2: "writeFrames chs len (pos + 1) (view1, offset + 2 * ?n) = Inr (view2, offset2)"
          "length view2 = length view1"
          "\<forall>i. i < 44 + (offset + 2 * ?n) \<longrightarrow> view2 ! i = view1 ! i"
          "\<forall>p j. pos + 1 \<le> p \<and> p < len \<and> j < ?n \<longrightarrow>
             getInt16 view2 (44 + (offset + 2 * ?n) + 2 * ((p - (pos + 1)) * ?n + j)) =
             sampleAt (chs ! j) p"
      by blast
    have run: "writeFrames chs len pos (view, offset) = Inr (view2, offset2)"
      using True v1(1) v2(1) writeFrames.simps[of chs len pos "(view, offset)"]
      by (simp add: bindE_def)
    have len: "length view2 = length view" using v2(2) v1(2) by simp
    have keep: "\<forall>i. i < 44 + offset \<longrightarrow> view2 ! i = view ! i"
    proof (intro allI impI)
      fix i assume i: "i < 44 + offset"
      then have "view2 ! i = view1 ! i" using v2(3)[rule_format, of i] by simp
      also have "\<dots> = view ! i" using v1(3) i by blast
      finally show "view2 ! i = view ! i" .
    qed
    have data: "getInt16 view2 (44 + offset + 2 * ((p - pos) * ?n + j)) = sampleAt (chs ! j) p"
      if pj: "pos \<le> p" "p < len" "j < ?n" for p j
    proof (cases "p = pos")
      case True
      have a: "view2 ! (44 + offset + 2 * j) = view1 ! (44 + offset + 2 * j)"
        using v2(3)[rule_format, of "44 + offset + 2 * j"] pj(3) by simp
      have b: "view2 ! (44 + offset + 2 * j + 1) = view1 ! (44 + offset + 2 * j + 1)"
        using v2(3)[rule_format, of "44 + offset + 2 * j + 1"] pj(3) by simp
      have "getInt16 view2 (44 + offset + 2 * j) = getInt16 view1 (44 + offset + 2 * j)"
        using a b by (rule getInt16_cong)
      also have "\<dots> = sampleAt (chs ! j) pos" using v1(4) pj(3) by blast
      finally show ?thesis using True by simp
    next
      case False
      with pj(1) have q: "pos + 1 \<le> p" by simp
      then have "p - pos = Suc (p - (pos + 1))" by simp
      then have "(p - pos) * ?n = ?n + (p - (pos + 1)) * ?n" by simp
      then have e: "44 + (offset + 2 * ?n) + 2 * ((p - (pos + 1)) * ?n + j) =
                 44 + offset + 2 * ((p - pos) * ?n + j)" by simp
      from v2(4) q pj(2,3)
      have "getInt16 view2 (44 + (offset + 2 * ?n) + 2 * ((p - (pos + 1)) * ?n + j)) =
            sampleAt (chs ! j) p"
        by blast
      then show ?thesis unfolding e .
    qed
    from data have data': "\<forall>p j. pos \<le> p \<and> p < len \<and> j < ?n \<longrightarrow>
        getInt16 view2 (44 + offset + 2 * ((p - pos) * ?n + j)) = sampleAt (chs ! j) p"
      by blast
    show ?thesis using run len keep data' by blast
  qed
qed

lemma writeHeader_ok:
  assumes "44 \<le> length view"
  shows "\<exists>view'. writeHeader b L (view, 0) = Inr (view', 44) \<and> length view' = length view \<and>
     readHeader view' =
       \<lparr>chunkID = ascii ''RIFF'', chunkSize = of_nat (L - 8), format = ascii ''WAVE'',
        subchunk1ID = ascii ''fmt '', subchunk1Size = 16, audioFormat = 1,
        numChannels = of_nat (numberOfChannels b), sampleRateField = of_nat (sampleRate b),
        byteRate = of_nat (sampleRate b * 2 * numberOfChannels b),
        blockAlign = of_nat (numberOfChannels b * 2), bitsPerSample = 16,
        subchunk2ID = ascii ''data'', subchunk2Size = of_nat (L - 44)\<rparr>"
proof -
  from assms have ne: "view \<noteq> []" by auto
  show ?thesis
    using assms ne
    apply (simp add: writeHeader_def setUint32_def setUint16_def viewSetUint32_def
        viewSetUint16_def bindE_def Let_def)
    apply (simp add: readHeader_def bytesAt_def getUint32_def getUint16_def byteOf_uint
        ascii_def word32_bytes word16_bytes)
    apply (simp add: byteOf_def word32_bytes_sum word16_bytes_sum)
    done
qed

text \<open>
  The whole encoder: it returns, and what it wrote. The frame loop starts at the cursor
  the header left, 44, so the word of frame \<open>p\<close> (for \<open>44 \<le> p\<close>) and channel \<open>j\<close> is word
  \<open>(p - 44) * numberOfChannels + j\<close> of the data.
\<close>

lemma bufferToWave_data:
  "\<exists>out. bufferToWave b len = Inr out \<and>
     length out = len * numberOfChannels b * 2 + 44 \<and>
     (\<forall>p j. 44 \<le> p \<and> p < len \<and> j < numberOfChannels b \<longrightarrow>
        getInt16 out (44 + 2 * ((p - 44) * numberOfChannels b + j)) =
        sampleAt (channels b ! j) p)"
proof -
  let ?n = "numberOfChannels b"
  let ?L = "len * ?n * 2 + 44"
  let ?view = "replicate ?L (0 :: byte)"
  have "44 \<le> length ?view" by simp
  from writeHeader_ok[OF this, of b ?L] obtain view1 where
    h: "writeHeader b ?L (?view, 0) = Inr (view1, 44)" "length view1 = ?L"
    by auto
  have "(len - 44) * ?n \<le> len * ?n" by simp
  then have "44 + 0 + 2 * length (channels b) * (len - 44) \<le> length view1"
    using h(2) by (simp add: numberOfChannels_def mult.commute)
  from writeFrames_data[OF this] obtain view2 offset2 where
    f: "writeFrames (channels b) len 44 (view1, 0) = Inr (view2, offset2)"
       "length view2 = length view1"
       "\<forall>p j. 44 \<le> p \<and> p < len \<and> j < length (channels b) \<longrightarrow>
          getInt16 view2 (44 + 0 + 2 * ((p - 44) * length (channels b) + j)) =
          sampleAt (channels b ! j) p"
    by blast
  have run: "bufferToWave b len = Inr view2"
    using h(1) f(1) by (simp add: bufferToWave_def Let_def bindE_def)
  show ?thesis using run f(2,3) h(2) by (simp add: numberOfChannels_def)
qed

section \<open>Claims about the WAV encoder\<close>

text \<open>
  Claim C6. For every buffer and every frame limit the encoder returns a byte sequence
  of length \<open>frameLimit * channelCount * 2 + 44\<close> whose first 44 bytes, read back at the
  offsets of the RIFF/WAVE layout, are the canonical header: the tags "RIFF", "WAVE",
  "fmt " and "data", ChunkSize = totalLength - 8, Subchunk1Size = 16, AudioFormat = 1,
  the channel count, the sample rate, the byte rate, the block alignment, 16 bits per
  sample and Subchunk2Size = totalLength - 44, each as a value of its field's width.
\<close>

theorem bufferToWave_length_header:
  "\<exists>out. bufferToWave b len = Inr out \<and>
     length out = len * numberOfChannels b * 2 + 44 \<and>
     readHeader out =
       \<lparr>chunkID = ascii ''RIFF'',
        chunkSize = of_nat (len * numberOfChannels b * 2 + 44 - 8),
        format = ascii ''WAVE'',
        subchunk1ID = ascii ''fmt '', subchunk1Size = 16, audioFormat = 1,
        numChannels = of_nat (numberOfChannels b),
        sampleRateField = of_nat (sampleRate b),
        byteRate = of_nat (sampleRate b * 2 * numberOfChannels b),
        blockAlign = of_nat (numberOfChannels b * 2), bitsPerSample = 16,
        subchunk2ID = ascii ''data'',
        subchunk2Size = of_nat (len * numberOfChannels b * 2 + 44 - 44)\<rparr>"
proof -
  let ?n = "numberOfChannels b"
  let ?L = "len * ?n * 2 + 44"
  let ?view = "replicate ?L (0 :: byte)"
  have "44 \<le> length ?view" by simp
  from writeHeader_ok[OF this, of b ?L] obtain view1 where
    h: "writeHeader b ?L (?view, 0) = Inr (view1, 44)" "length view1 = ?L"
       "readHeader view1 =
       \<lparr>chunkID = ascii ''RIFF'', chunkSize = of_nat (?L - 8),
        format = ascii ''WAVE'',
        subchunk1ID = ascii ''fmt '', subchunk1Size = 16, audioFormat = 1,
        numChannels = of_nat ?n, sampleRateField = of_nat (sampleRate b),
        byteRate = of_nat (sampleRate b * 2 * ?n),
        blockAlign = of_nat (?n * 2), bitsPerSample = 16,
        subchunk2ID = ascii ''data'', subchunk2Size = of_nat (?L - 44)\<rparr>"
    by auto
  have "(len - 44) * ?n \<le> len * ?n" by simp
  then have "44 + 0 + 2 * length (channels b) * (len - 44) \<le> length view1"
    using h(2) by (simp add: numberOfChannels_def mult.commute)
  from writeFrames_data[OF this] obtain view2 offset2 where
    f: "writeFrames (channels b) len 44 (view1, 0) = Inr (view2, offset2)"
       "length view2 = length view1" "\<forall>i. i < 44 + 0 \<longrightarrow> view2 ! i = view1 ! i"
    by blast
  have run: "bufferToWave b len = Inr view2"
    using h(1) f(1) by (simp add: bufferToWave_def Let_def bindE_def)
  have "readHeader view2 = readHeader view1"
    using f(3) by (intro readHeader_cong) simp
  then show ?thesis using run f(2) h(2,3) by simp
qed

text \<open>
  Claim C1, as amended. For every sample the frame loop writes (frame \<open>p\<close> between the
  loop's starting cursor and the frame limit, channel \<open>j\<close>, the sample present in the
  channel), the word stored for it is the sample clamped to \<open>[-1, 1]\<close>, multiplied by
  32768 when the clamped sample is below \<open>-1/2\<close> and by 32767 otherwise (so also for the
  negative samples from \<open>-1/2\<close> up), truncated toward zero, and it reads back as that
  signed 16-bit little-endian value.
\<close>

theorem writeFrames_quantization:
  assumes "44 + offset + 2 * length chs * (len - pos) \<le> length view"
    and "pos \<le> p" and "p < len" and "j < length chs" and "p < length (chs ! j)"
  shows "\<exists>view' offset'. writeFrames chs len pos (view, offset) = Inr (view', offset') \<and>
     getInt16 view' (44 + offset + 2 * ((p - pos) * length chs + j)) =
       truncToZero (clampSample (chs ! j ! p) *
         (if clampSample (chs ! j ! p) < - 1 / 2 then 32768 else 32767))"
proof -
  from writeFrames_data[OF assms(1)] obtain view' offset' where
    w: "writeFrames chs len pos (view, offset) = Inr (view', offset')"
       "\<forall>p j. pos \<le> p \<and> p < len \<and> j < length chs \<longrightarrow>
          getInt16 view' (44 + offset + 2 * ((p - pos) * length chs + j)) = sampleAt (chs ! j) p"
    by blast
  from w(2) assms(2,3,4)
  have "getInt16 view' (44 + offset + 2 * ((p - pos) * length chs + j)) = sampleAt (chs ! j) p"
    by blast
  then show ?thesis using w(1) sampleAt_eq[OF assms(5)] by simp
qed

theorem writeFrames_quantization_witness:
  "\<exists>view' offset'. writeFrames [[- 3 / 4]] 1 0 (replicate 46 0, 0) = Inr (view', offset') \<and>
     getInt16 view' 44 = - 24576"
proof -
  have a: "44 + 0 + 2 * length [[- 3 / 4 :: real]] * (1 - 0) \<le> length (replicate 46 (0 :: byte))"
    by simp
  from writeFrames_quantization[OF a, of 0 0]
  show ?thesis by (simp add: clampSample_def truncToZero_def)
qed

text \<open>
  Claim C1 as stated fails on a negative sample that is not below \<open>-1/2\<close>: the sample
  \<open>-1/4\<close> (frame 44 of a mono buffer of 45 frames) is written as \<open>-8191\<close>, the truncation
  of \<open>-1/4 * 32767\<close>, where the scale 32768 of the claim gives \<open>-8192\<close>.
\<close>

theorem negative_sample_scale_counterexample:
  "dataWord (bufferToWave \<lparr>sampleRate = 24000, channels = [replicate 44 0 @ [- 1 / 4]]\<rparr> 45) 0
     = Inr (- 8191) \<and>
   truncToZero (clampSample (- 1 / 4) * 32768) = - 8192"
proof -
  let ?b = "\<lparr>sampleRate = 24000, channels = [replicate 44 0 @ [- 1 / 4 :: real]]\<rparr>"
  from bufferToWave_data[of ?b 45] obtain out where
    o: "bufferToWave ?b 45 = Inr out"
       "\<forall>p j. 44 \<le> p \<and> p < 45 \<and> j < numberOfChannels ?b \<longrightarrow>
          getInt16 out (44 + 2 * ((p - 44) * numberOfChannels ?b + j)) =
          sampleAt (channels ?b ! j) p"
    by blast
  from o(2)[rule_format, of 44 0]
  have "getInt16 out 44 = sampleAt (replicate 44 0 @ [- 1 / 4]) 44"
    by (simp add: numberOfChannels_def)
  also have "\<dots> = - 8191"
    by (simp add: sampleAt_def nth_append scaleSample_def clampSample_def toInt32_def
        truncToZero_def)
  finally have "dataWord (bufferToWave ?b 45) 0 = Inr (- 8191)"
    using o(1) by (simp add: dataWord_def)
  moreover have "truncToZero (clampSample (- 1 / 4) * 32768) = - 8192"
    by (simp add: clampSample_def truncToZero_def)
  ultimately show ?thesis by simp
qed

text \<open>
  Claim C2, as amended. For every sample in \<open>[-1, 1]\<close> that the frame loop writes, the
  int16 word stored for it, mapped back by the decoder's scaling (division by 32768),
  is less than \<open>2/32768 = 1/16384\<close> away from the sample.
\<close>

theorem writeFrames_roundtrip:
  assumes "44 + offset + 2 * length chs * (len - pos) \<le> length view"
    and "pos \<le> p" and "p < len" and "j < length chs" and "p < length (chs ! j)"
    and "- 1 \<le> chs ! j ! p" and "chs ! j ! p \<le> 1"
  shows "\<exists>view' offset'. writeFrames chs len pos (view, offset) = Inr (view', offset') \<and>
     \<bar>int16ToFloat (getInt16 view' (44 + offset + 2 * ((p - pos) * length chs + j))) -
        chs ! j ! p\<bar> < 1 / 16384"
proof -
  from writeFrames_data[OF assms(1)] obtain view' offset' where
    w: "writeFrames chs len pos (view, offset) = Inr (view', offset')"
       "\<forall>p j. pos \<le> p \<and> p < len \<and> j < length chs \<longrightarrow>
          getInt16 view' (44 + offset + 2 * ((p - pos) * length chs + j)) = sampleAt (chs ! j) p"
    by blast
  from w(2) assms(2,3,4)
  have "getInt16 view' (44 + offset + 2 * ((p - pos) * length chs + j)) = sampleAt (chs ! j) p"
    by blast
  then show ?thesis using w(1) sampleAt_roundtrip[OF assms(5,6,7)] by simp
qed

theorem writeFrames_roundtrip_witness:
  "\<exists>view' offset'.
     writeFrames [[65535 / 65536]] 1 0 (replicate 46 0, 0) = Inr (view', offset') \<and>
     \<bar>int16ToFloat (getInt16 view' 44) - 65535 / 65536\<bar> < 1 / 16384"
proof -
  have a: "44 + 0 + 2 * length [[65535 / 65536 :: real]] * (1 - 0) \<le>
           length (replicate 46 (0 :: byte))"
    by simp
  from writeFrames_roundtrip[OF a, of 0 0]
  show ?thesis by simp
qed

text \<open>
  Claim C2 as stated fails. In a mono buffer of 45 frames that all hold \<open>65535/65536\<close>,
  encoded with frame limit 45, word 0 of the data is 32766; divided by 32768 it is
  more than \<open>1/32767\<close> away from sample 0 of the buffer (and from every other sample).
\<close>

theorem roundtrip_bound_counterexample:
  "dataWord (bufferToWave \<lparr>sampleRate = 24000, channels = [replicate 45 (65535 / 65536)]\<rparr> 45) 0
     = Inr 32766 \<and>
   replicate 45 (65535 / 65536 :: real) ! 0 = 65535 / 65536 \<and>
   1 / 32767 < \<bar>int16ToFloat 32766 - 65535 / 65536\<bar>"
proof -
  let ?b = "\<lparr>sampleRate = 24000, channels = [replicate 45 (65535 / 65536 :: real)]\<rparr>"
  from bufferToWave_data[of ?b 45] obtain out where
    o: "bufferToWave ?b 45 = Inr out"
       "\<forall>p j. 44 \<le> p \<and> p < 45 \<and> j < numberOfChannels ?b \<longrightarrow>
          getInt16 out (44 + 2 * ((p - 44) * numberOfChannels ?b + j)) =
          sampleAt (channels ?b ! j) p"
    by blast
  from o(2)[rule_format, of 44 0]
  have "getInt16 out 44 = sampleAt (replicate 45 (65535 / 65536)) 44"
    by (simp add: numberOfChannels_def)
  also have "\<dots> = 32766"
    by (simp add: sampleAt_def scaleSample_def clampSample_def toInt32_def truncToZero_def)
  finally have "dataWord (bufferToWave ?b 45) 0 = Inr 32766"
    using o(1) by (simp add: dataWord_def)
  moreover have "1 / 32767 < \<bar>int16ToFloat 32766 - 65535 / 65536\<bar>"
    by (simp add: int16ToFloat_def)
  ultimately show ?thesis by simp
qed

text \<open>
  The frame loop goes on with the cursor of the header, so the first 44 frames of a
  buffer are never written: a one-frame buffer holding 1 is encoded as silence.
\<close>

lemma bufferToWave_skips_leading_frames:
  "dataWord (bufferToWave \<lparr>sampleRate = 24000, channels = [[1]]\<rparr> 1) 0 = Inr 0"
  by (simp add: bufferToWave_def numberOfChannels_def writeHeader_def bindE_def
      setUint32_def setUint16_def viewSetUint32_def viewSetUint16_def byteOf_def
      writeFrames.simps dataWord_def getInt16_def getUint16_def)

section \<open>Properties of the PCM decoder\<close>

lemma storeSample_length: "length (storeSample cd i d k) = length cd"
  by (simp add: storeSample_def)

lemma fillChannel_length:
  "length (fillChannel d n c frames i cd) = length cd"
proof (induction d n c frames i cd rule: fillChannel.induct)
  case (1 d n c frames i cd)
  show ?case
  proof (cases "real i < frames")
    case True
    with 1 show ?thesis by (subst fillChannel.simps) (simp add: storeSample_length)
  next
    case False
    then show ?thesis by (subst fillChannel.simps) simp
  qed
qed

lemma fillChannels_lengths:
  "map length (fillChannels d n frames c chans) = map length chans"
proof (induction d n frames c chans rule: fillChannels.induct)
  case (1 d n frames c chans)
  show ?case
  proof (cases "c < n")
    case True
    let ?chans' = "if c < length chans
              then chans[c := fillChannel d n c frames 0 (chans ! c)] else chans"
    have "map length ?chans' = map length chans"
      by (simp add: map_update fillChannel_length list_update_same_conv)
    moreover have "map length (fillChannels d n frames (c + 1) ?chans') = map length ?chans'"
      using "1.IH"[OF True] by simp
    ultimately show ?thesis using True by (subst fillChannels.simps) simp
  next
    case False
    then show ?thesis by (subst fillChannels.simps) simp
  qed
qed

lemma frameCount_from_lengths:
  "map length chs = replicate k L \<Longrightarrow> 0 < k \<Longrightarrow> (case chs of [] \<Rightarrow> 0 | c # _ \<Rightarrow> length c) = L"
  by (cases chs; cases k) auto

lemma truncToZero_div:
  "1 \<le> nc \<Longrightarrow> truncToZero (real n / real_of_int nc) = int (n div nat nc)"
proof -
  assume nc: "1 \<le> nc"
  then have "real_of_int nc = real (nat nc)" by simp
  moreover have "\<not> real n / real (nat nc) < 0" by (simp add: not_less)
  ultimately show ?thesis
    by (simp add: truncToZero_def floor_divide_of_nat_eq del: of_nat_nat)
qed

lemma int16Array_length: "length (int16Array bytes) = length bytes div 2"
  by (simp add: int16Array_def)

lemma decode_ok:
  assumes "even (length bytes)" and "1 \<le> nc" and "nc \<le> int (maxChannelCount ctx)"
    and "minSampleRate ctx \<le> rate" and "rate \<le> maxSampleRate ctx"
    and "nat nc \<le> length bytes div 2"
  shows "\<exists>b. decodeAudioData ctx bytes rate nc = Inr b \<and>
           frameCount b = length bytes div 2 div nat nc \<and>
           numberOfChannels b = nat nc \<and> sampleRate b = rate"
proof -
  let ?n = "length bytes div 2"
  let ?frames = "real (length (int16Array bytes)) / real_of_int nc"
  have t: "truncToZero ?frames = int (?n div nat nc)"
    using truncToZero_div[OF assms(2)] by (simp add: int16Array_length)
  have pos: "1 \<le> ?n div nat nc"
    using assms(2,6) by (simp add: Suc_le_eq div_greater_zero_iff)
  let ?b0 = "\<lparr>sampleRate = rate, channels = replicate (nat nc) (replicate (?n div nat nc) (0::real))\<rparr>"
  have cb: "createBuffer ctx nc ?frames rate = Inr ?b0"
    using assms(2-5) pos t by (simp add: createBuffer_def)
  let ?chs = "fillChannels (int16Array bytes) (nat nc) ?frames 0 (channels ?b0)"
  have run: "decodeAudioData ctx bytes rate nc = Inr (?b0\<lparr>channels := ?chs\<rparr>)"
    using assms(1) cb by (simp add: decodeAudioData_def Let_def bindE_def)
  have ml: "map length ?chs = replicate (nat nc) (?n div nat nc)"
    by (simp add: fillChannels_lengths)
  have fc: "frameCount (?b0\<lparr>channels := ?chs\<rparr>) = ?n div nat nc"
    using frameCount_from_lengths[OF ml] assms(2) by (simp add: frameCount_def)
  have "length ?chs = nat nc" using arg_cong[OF ml, of length] by simp
  then show ?thesis using run fc by (simp add: numberOfChannels_def)
qed


lemma decode_reads_in_range:
  assumes "i < length bytes div 2 div nc" and "channel < nc"
  shows "i * nc + channel < length (int16Array bytes)"
proof -
  have "i * nc + channel < (i + 1) * nc" using assms(2) by simp
  also have "\<dots> \<le> (length bytes div 2 div nc) * nc"
    using assms(1) by (intro mult_le_mono1) simp
  also have "\<dots> \<le> length bytes div 2" by simp
  finally show ?thesis by (simp add: int16Array_length)
qed

text \<open>
  Five 16-bit words decoded as stereo: two frames, the fifth word dropped; the word
  \<open>-32768\<close> becomes \<open>-1\<close> and the word \<open>32767\<close> becomes \<open>32767/32768\<close>.
\<close>

lemma int16Array_example:
  "int16Array [0, 0, 1, 0, 0, 128, 255, 127, 3, 0] = [0, 1, - 32768, 32767, 3]"
  by (simp add: int16Array_def getInt16_def getUint16_def upt_rec)

lemma decodeAudioData_example:
  "decodeAudioData standardContext [0, 0, 1, 0, 0, 128, 255, 127, 3, 0] 24000 2 =
     Inr \<lparr>sampleRate = 24000, channels = [[0, - 1], [1 / 32768, 32767 / 32768]]\<rparr>"
  apply (simp add: decodeAudioData_def int16Array_example createBuffer_def standardContext_def
      truncToZero_def bindE_def)
  apply (simp add: fillChannels.simps fillChannel.simps storeSample_def
      int16ToFloat_def replicate_Suc[symmetric] eval_nat_numeral(2))
  done

section \<open>Claims about the PCM decoder\<close>

text \<open>
  Claim C3, as amended. For every even-length byte sequence and every channel count
  from 1 up to what the context supports, at a supported sample rate, when the input
  holds at least one whole frame, the decoder returns a buffer whose frame count is
  \<open>floor(bytes.length / 2 / channelCount)\<close>: the trailing incomplete frame is dropped.
\<close>

theorem decodeAudioData_frameCount:
  assumes "even (length bytes)" and "1 \<le> nc" and "nc \<le> int (maxChannelCount ctx)"
    and "minSampleRate ctx \<le> rate" and "rate \<le> maxSampleRate ctx"
    and "nat nc \<le> length bytes div 2"
  shows "\<exists>b. decodeAudioData ctx bytes rate nc = Inr b \<and>
           frameCount b = length bytes div 2 div nat nc"
  using decode_ok[OF assms] by blast

theorem decodeAudioData_frameCount_witness:
  "\<exists>b. decodeAudioData standardContext [0, 0, 1, 0, 0, 128, 255, 127, 3, 0] 24000 2 = Inr b \<and>
       frameCount b = 2"
proof -
  let ?bytes = "[0, 0, 1, 0, 0, 128, 255, 127, 3, 0 :: byte]"
  have "\<exists>b. decodeAudioData standardContext ?bytes 24000 2 = Inr b \<and>
       frameCount b = length ?bytes div 2 div nat 2"
    by (rule decodeAudioData_frameCount) (simp_all add: standardContext_def)
  moreover have "length ?bytes div 2 div nat 2 = 2" by simp
  ultimately show ?thesis by metis
qed

text \<open>
  Claim C3 as stated fails on the empty byte sequence: its length is even and the
  channel count is 1, but \<^verbatim>\<open>createBuffer\<close> refuses a buffer of 0 frames and no buffer is
  returned.
\<close>

theorem decode_empty_input_counterexample:
  "even (length ([] :: byte list)) \<and>
   decodeAudioData standardContext [] 24000 1 = Inl NotSupportedError"
  by (simp add: decodeAudioData_def createBuffer_def standardContext_def int16Array_def
      truncToZero_def bindE_def)

text \<open>
  Claim C7, as amended. The decoder fails exactly when the byte length is odd, or the
  channel count is not positive, or \<^verbatim>\<open>createBuffer\<close> refuses its arguments otherwise: a
  channel count above the context's maximum, an input of less than one whole frame
  (fewer 16-bit words than channels), or a sample rate outside the context's range.
  On every other input it returns a buffer.
\<close>

theorem decodeAudioData_fails_iff:
  "isl (decodeAudioData ctx bytes rate nc) =
     (odd (length bytes) \<or> nc \<le> 0 \<or> int (maxChannelCount ctx) < nc \<or>
      length bytes div 2 < nat nc \<or> rate < minSampleRate ctx \<or> maxSampleRate ctx < rate)"
proof (cases "even (length bytes) \<and> 1 \<le> nc \<and> nc \<le> int (maxChannelCount ctx) \<and>
      minSampleRate ctx \<le> rate \<and> rate \<le> maxSampleRate ctx \<and> nat nc \<le> length bytes div 2")
  case True
  with decode_ok[of bytes nc ctx rate] obtain b where "decodeAudioData ctx bytes rate nc = Inr b"
    by blast
  then show ?thesis using True by auto
next
  case False
  show ?thesis
  proof (cases "odd (length bytes)")
    case True
    then show ?thesis by (simp add: decodeAudioData_def)
  next
    case even: False
    let ?frames = "real (length (int16Array bytes)) / real_of_int nc"
    have "createBuffer ctx nc ?frames rate = Inl NotSupportedError"
    proof (cases "1 \<le> nc")
      case True
      have t: "truncToZero ?frames = int (length bytes div 2 div nat nc)"
        using truncToZero_div[OF True] by (simp add: int16Array_length)
      from False even True have "int (maxChannelCount ctx) < nc \<or>
        length bytes div 2 < nat nc \<or> rate < minSampleRate ctx \<or> maxSampleRate ctx < rate"
        by auto
      then show ?thesis using t by (auto simp: createBuffer_def)
    next
      case False
      then show ?thesis by (simp add: createBuffer_def)
    qed
    then have "isl (decodeAudioData ctx bytes rate nc)"
      using even by (simp add: decodeAudioData_def Let_def bindE_def)
    then show ?thesis using False even by auto
  qed
qed


theorem decodeAudioData_fails_iff_witness:
  "isl (decodeAudioData standardContext [0, 0, 1] 24000 1) \<and>
   isl (decodeAudioData standardContext [0, 0, 1, 0] 24000 0) \<and>
   \<not> isl (decodeAudioData standardContext [0, 0, 1, 0] 24000 1)"
  using decodeAudioData_fails_iff[of standardContext "[0, 0, 1]" 24000 1]
    decodeAudioData_fails_iff[of standardContext "[0, 0, 1, 0]" 24000 0]
    decodeAudioData_fails_iff[of standardContext "[0, 0, 1, 0]" 24000 1]
  by (simp add: standardContext_def)

text \<open>
  Claim C7 as stated fails on one 16-bit word decoded as stereo: the byte length 2 is
  a multiple of 2 and the channel count 2 is positive, but the input holds no whole
  frame and the decoder raises.
\<close>

theorem decode_incomplete_frame_counterexample:
  "even (length [0, 0 :: byte]) \<and> (0 :: int) < 2 \<and>
   decodeAudioData standardContext [0, 0] 24000 2 = Inl NotSupportedError"
  by (simp add: decodeAudioData_def createBuffer_def standardContext_def int16Array_def
      truncToZero_def bindE_def)

section \<open>Properties of the classifier\<close>

subsection \<open>The window loop without the loop\<close>

lemma peakOver_Nil: "peakOver p [] = p"
  by (simp add: peakOver_def)

lemma peakOver_Cons: "peakOver p (x # xs) = peakOver (if \<bar>x\<bar> > p then \<bar>x\<bar> else p) xs"
proof -
  have "Max (insert p (insert \<bar>x\<bar> ((\<lambda>x. \<bar>x\<bar>) ` set xs))) =
        Max (insert (max p \<bar>x\<bar>) ((\<lambda>x. \<bar>x\<bar>) ` set xs))"
    by (cases "set xs = {}") (simp_all add: max.assoc max.commute max.left_commute)
  moreover have "(if \<bar>x\<bar> > p then \<bar>x\<bar> else p) = max p \<bar>x\<bar>" by (simp add: max_def)
  ultimately show ?thesis by (simp add: peakOver_def)
qed

lemma peakOver_append: "peakOver p (xs @ ys) = peakOver (peakOver p xs) ys"
  by (induction xs arbitrary: p) (simp_all add: peakOver_Nil peakOver_Cons)

lemma sampleLoop_closed:
  "sampleLoop xs (p, s) = (peakOver p xs, s + sum_list (map (\<lambda>x. x * x) xs))"
  by (induction xs arbitrary: p s) (simp_all add: peakOver_Nil peakOver_Cons add.assoc)

lemma slice_append:
  assumes "a \<le> b" and "b \<le> c"
  shows "slice xs a c = slice xs a b @ slice xs b c"
proof -
  have "c - a = (b - a) + (c - b)" using assms by simp
  then have "take (c - a) (drop a xs) = take (b - a) (drop a xs) @ take (c - b) (drop (b - a) (drop a xs))"
    by (simp only: take_add)
  moreover have "drop (b - a) (drop a xs) = drop b xs" using assms by simp
  ultimately show ?thesis by (simp add: slice_def)
qed

lemma windowLoop_closed:
  "i \<le> n \<Longrightarrow> windowLoop data ws n i st =
     \<lparr>globalPeak = peakOver (globalPeak st) (slice data (i * ws) (n * ws)),
      totalRMS = totalRMS st + sum_list (map (\<lambda>k. rmsOf (windowAt data ws k) ws) [i..<n]),
      windowRMSs = windowRMSs st @ map (\<lambda>k. rmsOf (windowAt data ws k) ws) [i..<n],
      windowZCRs = windowZCRs st @ map (\<lambda>k. calculateZCR (windowAt data ws k)) [i..<n]\<rparr>"
proof (induction "n - i" arbitrary: i st)
  case 0
  then have "i = n" by simp
  then show ?case
    by (subst windowLoop.simps) (simp add: slice_def peakOver_Nil)
next
  case (Suc d)
  then have lt: "i < n" and d: "d = n - (i + 1)" and le: "i + 1 \<le> n" by simp_all
  let ?wd = "slice data (i * ws) ((i + 1) * ws)"
  let ?st' = "\<lparr>globalPeak = peakOver (globalPeak st) ?wd,
               totalRMS = totalRMS st + rmsOf ?wd ws,
               windowRMSs = windowRMSs st @ [rmsOf ?wd ws],
               windowZCRs = windowZCRs st @ [calculateZCR ?wd]\<rparr>"
  have step: "windowLoop data ws n i st = windowLoop data ws n (i + 1) ?st'"
    using lt
    by (subst windowLoop.simps) (simp add: Let_def sampleLoop_closed rmsOf_def)
  have sl: "slice data (i * ws) (n * ws) = ?wd @ slice data ((i + 1) * ws) (n * ws)"
  proof (rule slice_append)
    show "i * ws \<le> (i + 1) * ws" by simp
    show "(i + 1) * ws \<le> n * ws" using lt by (intro mult_le_mono1) simp
  qed
  have up: "[i..<n] = i # [i + 1..<n]" using lt by (simp add: upt_conv_Cons)
  show ?case
    unfolding step Suc.hyps(1)[OF d le] sl up by (simp add: peakOver_append windowAt_def)
qed

lemma windowStats_closed:
  "windowStats data rate =
     \<lparr>globalPeak = peakOver 0 (take (totalWindows data rate * windowSizeSamples rate) data),
      totalRMS = sum_list (map (\<lambda>k. rmsOf (windowAt data (windowSizeSamples rate) k) (windowSizeSamples rate))
                   [0..<totalWindows data rate]),
      windowRMSs = map (\<lambda>k. rmsOf (windowAt data (windowSizeSamples rate) k) (windowSizeSamples rate))
                   [0..<totalWindows data rate],
      windowZCRs = map (\<lambda>k. calculateZCR (windowAt data (windowSizeSamples rate) k))
                   [0..<totalWindows data rate]\<rparr>"
  unfolding windowStats_def
  by (subst windowLoop_closed) (simp_all add: slice_def)

lemma windowRMSs_length: "length (windowRMSs (windowStats data rate)) = totalWindows data rate"
  by (simp add: windowStats_closed)

lemma rhythmStep_quiet:
  "quietWindows (rhythmStep rmss zcrs avg thr i st) =
     quietWindows st + (if rmss ! i < thr then 1 else 0)"
  by (simp add: rhythmStep_def Let_def)

lemma rhythmLoop_quiet:
  "quietWindows (rhythmLoop rmss zcrs avg thr i st) =
     quietWindows st + length (filter (\<lambda>k. rmss ! k < thr) [i..<length rmss - 1])"
proof (induction "length rmss - 1 - i" arbitrary: i st)
  case 0
  then have "\<not> int i < int (length rmss) - 1" by simp
  then show ?case using 0 by (subst rhythmLoop.simps) simp
next
  case (Suc d)
  then have lt: "i < length rmss - 1" and d: "d = length rmss - 1 - (i + 1)" by simp_all
  then have c: "int i < int (length rmss) - 1" by simp
  have up: "[i..<length rmss - 1] = i # [i + 1..<length rmss - 1]"
    using lt by (simp add: upt_conv_Cons)
  have "quietWindows (rhythmLoop rmss zcrs avg thr i st) =
        quietWindows (rhythmLoop rmss zcrs avg thr (i + 1) (rhythmStep rmss zcrs avg thr i st))"
    using c by (subst rhythmLoop.simps) simp
  also have "\<dots> = quietWindows (rhythmStep rmss zcrs avg thr i st) +
        length (filter (\<lambda>k. rmss ! k < thr) [i + 1..<length rmss - 1])"
    by (rule Suc.hyps(1)[OF d])
  finally show ?case unfolding up by (simp add: rhythmStep_quiet)
qed

lemma interior_nth: "map (\<lambda>k. xs ! k) [1..<length xs - 1] = butlast (tl xs)"
  by (rule nth_equalityI) (simp_all add: nth_butlast nth_tl)

lemma quietWindows_closed:
  "quietWindows (rhythmStats data rate) =
     length (filter (\<lambda>rms. rms < dynamicThreshold data rate)
       (butlast (tl (windowRMSs (windowStats data rate)))))"
proof -
  let ?rmss = "windowRMSs (windowStats data rate)"
  let ?thr = "dynamicThreshold data rate"
  have "quietWindows (rhythmStats data rate) =
        length (filter (\<lambda>k. ?rmss ! k < ?thr) [1..<length ?rmss - 1])"
    by (simp add: rhythmStats_def Let_def rhythmLoop_quiet)
  also have "\<dots> = length (filter (\<lambda>rms. rms < ?thr) (map (\<lambda>k. ?rmss ! k) [1..<length ?rmss - 1]))"
    by (simp add: filter_map comp_def)
  finally show ?thesis by (simp only: interior_nth)
qed

subsection \<open>Signals that are constant within each window\<close>

lemma zeroCrossings_replicate: "zeroCrossings (replicate n v) = 0"
proof (induction n rule: less_induct)
  case (less n)
  show ?case
  proof (cases n)
    case 0 then show ?thesis by simp
  next
    case (Suc m)
    show ?thesis
    proof (cases m)
      case 0 with Suc show ?thesis by simp
    next
      case (Suc k)
      with \<open>n = Suc m\<close> less[of m] show ?thesis by simp
    qed
  qed
qed

lemma calculateZCR_replicate: "calculateZCR (replicate n v) = 0"
  by (simp add: calculateZCR_def zeroCrossings_replicate)

lemma rmsOf_replicate: "0 < ws \<Longrightarrow> rmsOf (replicate ws v) ws = \<bar>v\<bar>"
  by (simp add: rmsOf_def sum_list_replicate)

lemma length_piecewise: "length (concat (map (replicate ws) vs)) = ws * length vs"
  by (induction vs) simp_all

lemma windowAt_piecewise:
  "k < length vs \<Longrightarrow> windowAt (concat (map (replicate ws) vs)) ws k = replicate ws (vs ! k)"
proof (induction vs arbitrary: k)
  case Nil
  then show ?case by simp
next
  case (Cons v vs)
  show ?case
  proof (cases k)
    case 0
    then show ?thesis by (simp add: windowAt_def slice_def)
  next
    case (Suc j)
    with Cons.prems have j: "j < length vs" by simp
    have "windowAt (concat (map (replicate ws) (v # vs))) ws (Suc j) =
          windowAt (concat (map (replicate ws) vs)) ws j"
      by (simp add: windowAt_def slice_def)
    then show ?thesis using Cons.IH[OF j] Suc by simp
  qed
qed

lemma totalWindows_piecewise:
  assumes "windowSizeSamples rate = ws" and "0 < ws"
  shows "totalWindows (concat (map (replicate ws) vs)) rate = length vs"
  using assms by (simp add: totalWindows_def length_piecewise)

lemma set_piecewise: "0 < ws \<Longrightarrow> set (concat (map (replicate ws) vs)) = set vs"
  by (induction vs) auto

lemma windowStats_piecewise:
  assumes "windowSizeSamples rate = ws" and "0 < ws"
  shows "windowStats (concat (map (replicate ws) vs)) rate =
     \<lparr>globalPeak = peakOver 0 vs, totalRMS = sum_list (map abs vs),
      windowRMSs = map abs vs, windowZCRs = map (\<lambda>v. 0) vs\<rparr>"
proof -
  let ?data = "concat (map (replicate ws) vs)"
  have tw: "totalWindows ?data rate = length vs"
    by (rule totalWindows_piecewise[OF assms])
  have r: "map (\<lambda>k. rmsOf (windowAt ?data ws k) ws) [0..<length vs] = map abs vs"
    by (rule nth_equalityI) (simp_all add: windowAt_piecewise rmsOf_replicate assms(2))
  have z: "map (\<lambda>k. calculateZCR (windowAt ?data ws k)) [0..<length vs] = map (\<lambda>v. 0) vs"
    by (rule nth_equalityI) (simp_all add: windowAt_piecewise calculateZCR_replicate)
  have "take (length vs * ws) ?data = ?data"
    by (simp add: length_piecewise mult.commute)
  then have p: "peakOver 0 (take (length vs * ws) ?data) = peakOver 0 vs"
    unfolding peakOver_def by (simp only: set_piecewise[OF assms(2)])
  show ?thesis
    unfolding windowStats_closed tw assms(1) r z p by simp
qed

subsection \<open>The sample signal, evaluated\<close>

lemma ws8000: "windowSizeSamples 8000 = 400"
  by (simp add: windowSizeSamples_def)

lemma voice_length: "length voiceData = 24000"
  by (simp add: voiceData_def length_piecewise voiceLevels_def)

lemma voice_tw: "totalWindows voiceData 8000 = 60"
  by (simp add: totalWindows_def ws8000 voice_length)

lemma voice_stats: "windowStats voiceData 8000 =
   \<lparr>globalPeak = 4/5, totalRMS = 24, windowRMSs = voiceLevels, windowZCRs = replicate 60 0\<rparr>"
  unfolding voiceData_def
  apply (subst windowStats_piecewise[OF ws8000])
   apply simp
  apply (simp add: voiceLevels_def peakOver_def)
  apply (simp add: numeral_eq_Suc)
  done

lemma voice_avg: "avgRMS voiceData 8000 = 2/5"
  by (simp add: avgRMS_def voice_stats voice_tw)

lemma voice_thr: "dynamicThreshold voiceData 8000 = 4/25"
  by (simp add: dynamicThreshold_def voice_avg)

lemma voice_rhythm: "rhythmStats voiceData 8000 =
    \<lparr>quietWindows = 29, longestPauseWindows = 2, currentPauseRun = 0,
     activeWindowsCount = 29, activeZCRs = replicate 29 0, peakCount = 0\<rparr>"
  apply (simp add: rhythmStats_def voice_stats voice_avg voice_thr Let_def)
  apply (simp add: rhythmLoop.simps rhythmStep_def voiceLevels_def Let_def)
  apply (simp add: numeral_eq_Suc)
  done

lemma voice_quietRatio: "quietRatio voiceData 8000 = 29/60"
  by (simp add: quietRatio_def voice_rhythm voice_tw)

lemma voice_active: "activeDurationSec voiceData 8000 = 29/20"
  by (simp add: activeDurationSec_def voice_rhythm)

lemma voice_pps: "peaksPerSecond voiceData 8000 = 0"
  by (simp add: peaksPerSecond_def voice_rhythm voice_active)

lemma funpow_same: "((\<lambda>acc. acc) ^^ n) a = a"
  by (induction n) simp_all

lemma voice_avgZCR: "avgZCR voiceData 8000 = 0"
  apply (simp add: avgZCR_def voice_rhythm Let_def)
  apply (simp add: numeral_eq_Suc)
  done

lemma voice_zcrStdDev: "zcrStdDev voiceData 8000 = 0"
  by (simp add: zcrStdDev_def voice_rhythm voice_avgZCR Let_def funpow_same)

lemma voice_stdDev: "stdDevRMS voiceData 8000 = 2/5"
  apply (simp add: stdDevRMS_def voice_stats voice_avg voice_tw Let_def)
  apply (simp add: voiceLevels_def power2_eq_square real_sqrt_divide)
  done

lemma voice_cv: "variationCoefficient voiceData 8000 = 1"
  by (simp add: variationCoefficient_def voice_stdDev voice_avg)

lemma voice_score: "scoreOf voiceData 8000 = 80"
  by (simp add: scoreOf_def Let_def voice_avg voice_stats voice_quietRatio voice_cv
      voice_zcrStdDev voice_pps)

lemma voice_verdict:
  "verdict voiceData 8000 = Returns \<lparr>valid = True, reason = None, score = 80\<rparr>"
  by (simp add: verdict_def voice_avg voice_stats voice_quietRatio voice_cv
      voice_zcrStdDev voice_pps voice_active voice_score)

lemma voice_duration: "duration voiceBuffer = 3"
  by (simp add: duration_def frameCount_def voiceBuffer_def voice_length)

lemma voice_wellFormed: "wellFormed voiceBuffer"
  by (simp add: wellFormed_def frameCount_def voiceBuffer_def voice_length)

lemma voice_analysis:
  "analyzeAudioQuality voiceBuffer = Returns \<lparr>valid = True, reason = None, score = 80\<rparr>"
  using voice_duration
  by (simp add: analyzeAudioQuality_def voiceBuffer_def ws8000 voice_verdict)

subsection \<open>The shape of a verdict\<close>

lemma scoreOf_bounds: "20 \<le> scoreOf data rate \<and> scoreOf data rate \<le> 100"
proof -
  define s1 :: int where "s1 = (if avgRMS data rate < 0.05 then 100 - 15
                else if avgRMS data rate < 0.1 then 100 - 5 else 100)"
  define s2 where "s2 = (if globalPeak (windowStats data rate) > 0.95 then s1 - 10 else s1)"
  define s3 where "s3 = (if quietRatio data rate < 0.15 then s2 - 20 else s2)"
  define s4 where "s4 = (if variationCoefficient data rate < 0.25 then s3 - 15 else s3)"
  define s5 where "s5 = (if zcrStdDev data rate < 0.005 then s4 - 10 else s4)"
  define s6 where "s6 = (if peaksPerSecond data rate < 1.5 \<or> peaksPerSecond data rate > 8.0
                then s5 - 10 else s5)"
  have e: "scoreOf data rate = max 0 (min 100 s6)"
    unfolding scoreOf_def Let_def s6_def s5_def s4_def s3_def s2_def s1_def by (rule refl)
  have b1: "85 \<le> s1 \<and> s1 \<le> 100" by (simp add: s1_def)
  have b2: "75 \<le> s2 \<and> s2 \<le> 100" using b1 by (simp add: s2_def)
  have b3: "55 \<le> s3 \<and> s3 \<le> 100" using b2 by (simp add: s3_def)
  have b4: "40 \<le> s4 \<and> s4 \<le> 100" using b3 by (simp add: s4_def)
  have b5: "30 \<le> s5 \<and> s5 \<le> 100" using b4 by (simp add: s5_def)
  have b6: "20 \<le> s6 \<and> s6 \<le> 100" using b5 by (simp add: s6_def)
  show ?thesis unfolding e using b6 by simp
qed

lemma invalid_shape:
  assumes "invalid m k = Returns r" and "0 \<le> k" and "k \<le> 100"
  shows "0 \<le> score r \<and> score r \<le> 100 \<and> (reason r \<noteq> None) = (\<not> valid r) \<and>
         (valid r \<longrightarrow> score r = s)"
  using assms by (auto simp: invalid_def)

lemma min_score_range: "20 \<le> (s::int) \<Longrightarrow> 0 \<le> k \<Longrightarrow> k \<le> 100 \<Longrightarrow> 0 \<le> min s k \<and> min s k \<le> 100"
  by (simp add: min_def)

lemma checks_shape:
  assumes g: "(if c1 then invalid m1 20
      else if c2 then invalid m2 30
      else if c3 then invalid m3 (min s 40)
      else if c4 then invalid m4 (min s 45)
      else if c5 then invalid m5 (min s 30)
      else if c6 then invalid m6 (min s 50)
      else if c7 then invalid m7 (min s 50)
      else if c8 then invalid m8 (min s 55)
      else Returns \<lparr>valid = True, reason = None, score = s\<rparr>) = Returns r"
    and s: "20 \<le> s" "s \<le> 100"
  shows "0 \<le> score r \<and> score r \<le> 100 \<and> (reason r \<noteq> None) = (\<not> valid r) \<and>
         (valid r \<longrightarrow> score r = s)"
proof -
  consider k m where "invalid m k = Returns r" "0 \<le> k" "k \<le> 100"
    | "r = \<lparr>valid = True, reason = None, score = s\<rparr>"
  proof -
    have r: "0 \<le> min s k \<and> min s k \<le> 100" if "0 \<le> k" "k \<le> 100" for k
      using min_score_range[OF s(1) that] .
    assume a: "\<And>m k. invalid m k = Returns r \<Longrightarrow> 0 \<le> k \<Longrightarrow> k \<le> 100 \<Longrightarrow> thesis"
       and b: "r = \<lparr>valid = True, reason = None, score = s\<rparr> \<Longrightarrow> thesis"
    show thesis
    proof (cases c1)
      case True with g a[of m1 20] show thesis by simp
    next
      case n1: False
      show thesis
      proof (cases c2)
        case True with g n1 a[of m2 30] show thesis by simp
      next
        case n2: False
        show thesis
        proof (cases c3)
          case True with g n1 n2 a[of m3 "min s 40"] r[of 40] show thesis by simp
        next
          case n3: False
          show thesis
          proof (cases c4)
            case True with g n1 n2 n3 a[of m4 "min s 45"] r[of 45] show thesis by simp
          next
            case n4: False
            show thesis
            proof (cases c5)
              case True with g n1 n2 n3 n4 a[of m5 "min s 30"] r[of 30] show thesis by simp
            next
              case n5: False
              show thesis
              proof (cases c6)
                case True with g n1 n2 n3 n4 n5 a[of m6 "min s 50"] r[of 50] show thesis by simp
              next
                case n6: False
                show thesis
                proof (cases c7)
                  case True with g n1 n2 n3 n4 n5 n6 a[of m7 "min s 50"] r[of 50] show thesis by simp
                next
                  case n7: False
                  show thesis
                  proof (cases c8)
                    case True with g n1 n2 n3 n4 n5 n6 n7 a[of m8 "min s 55"] r[of 55] show thesis by simp
                  next
                    case False with g n1 n2 n3 n4 n5 n6 n7 b show thesis by simp
                  qed
                qed
              qed
            qed
          qed
        qed
      qed
    qed
  qed
  then show ?thesis
  proof cases
    case 1
    then show ?thesis by (intro invalid_shape)
  next
    case 2
    then show ?thesis using s by simp
  qed
qed

lemma verdict_shape:
  assumes "verdict data rate = Returns r"
  shows "0 \<le> score r \<and> score r \<le> 100 \<and> (reason r \<noteq> None) = (\<not> valid r) \<and>
         (valid r \<longrightarrow> score r = scoreOf data rate)"
  using scoreOf_bounds[of data rate]
  by (intro checks_shape[OF assms[unfolded verdict_def]]) simp_all

lemma verdict_returns: "\<exists>r. verdict data rate = Returns r"
  by (simp add: verdict_def invalid_def)

lemma analyze_cases:
  assumes "analyzeAudioQuality b = Returns r"
  shows "(\<not> valid r \<and> reason r \<noteq> None \<and> score r = 0) \<or>
         (\<exists>data. verdict data (sampleRate b) = Returns r)"
proof (cases "channels b")
  case Nil
  then show ?thesis using assms by (simp add: analyzeAudioQuality_def)
next
  case (Cons data rest)
  then have "(if duration b < 3.0 then invalid msgTooShort 0
          else if duration b > 300 then invalid msgTooLarge 0
          else if windowSizeSamples (sampleRate b) = 0 then Diverges
          else verdict data (sampleRate b)) = Returns r"
    using assms by (simp add: analyzeAudioQuality_def)
  then show ?thesis by (auto simp: invalid_def split: if_splits)
qed

text \<open>
  On a buffer of the platform the classifier returns as soon as the sample rate is at
  least 20 Hz. Past the duration checks there are at least 60 windows, so the
  averages over the windows divide by a positive count.
\<close>

lemma windowSizeSamples_div: "windowSizeSamples rate = rate div 20"
proof -
  have "real rate * 0.05 = real rate / real 20" by simp
  then show ?thesis
    unfolding windowSizeSamples_def by (simp only: floor_divide_of_nat_eq nat_int)
qed

lemma totalWindows_div: "totalWindows data rate = length data div windowSizeSamples rate"
  unfolding totalWindows_def by (simp only: floor_divide_of_nat_eq nat_int)

lemma analyzeAudioQuality_returns:
  assumes "wellFormed b" and "20 \<le> sampleRate b"
  shows "\<exists>r. analyzeAudioQuality b = Returns r"
proof -
  from assms(1) obtain data rest where c: "channels b = data # rest"
    by (cases "channels b") (simp_all add: wellFormed_def)
  have "windowSizeSamples (sampleRate b) \<noteq> 0"
    using assms(2) by (simp add: windowSizeSamples_div)
  then show ?thesis
    using c verdict_returns[of data "sampleRate b"]
    by (auto simp: analyzeAudioQuality_def invalid_def)
qed

lemma totalWindows_at_least_60:
  assumes "channels b = data # rest" and "0 < sampleRate b" and "\<not> duration b < 3"
    and "windowSizeSamples (sampleRate b) \<noteq> 0"
  shows "60 \<le> totalWindows data (sampleRate b)"
proof -
  let ?r = "sampleRate b"
  let ?ws = "windowSizeSamples ?r"
  have "3 \<le> real (length data) / real ?r"
    using assms(1,3) by (simp add: duration_def frameCount_def)
  then have "3 * real ?r \<le> real (length data)"
    using assms(2) by (simp add: pos_le_divide_eq)
  then have len: "3 * ?r \<le> length data"
    by (metis of_nat_le_iff of_nat_mult of_nat_numeral)
  have "20 * ?ws \<le> ?r" by (simp add: windowSizeSamples_div)
  then have "60 * ?ws \<le> length data" using len by simp
  then have "60 \<le> length data div ?ws"
    using assms(4) by (simp add: less_eq_div_iff_mult_less_eq)
  then show ?thesis by (simp add: totalWindows_div)
qed

section \<open>Claims about the classifier\<close>

text \<open>
  Claim C4, as amended. For a window size that is not 0, the \<open>globalPeak\<close> the
  classifier uses is the largest absolute sample value among the samples of the
  complete windows, the first \<open>totalWindows * windowSize\<close> samples of channel 0 (and 0
  when there is none); the samples of a trailing partial window are not looked at.
\<close>

theorem globalPeak_over_complete_windows:
  assumes "0 < windowSizeSamples rate"
  shows "globalPeak (windowStats data rate) =
     Max (insert 0 ((\<lambda>x. \<bar>x\<bar>) `
       set (take (totalWindows data rate * windowSizeSamples rate) data)))"
  by (simp add: windowStats_closed peakOver_def)

theorem globalPeak_over_complete_windows_witness:
  "globalPeak (windowStats (replicate 24000 (1 / 2) @ [1]) 8000) = 1 / 2"
proof -
  have "0 < windowSizeSamples 8000" by (simp add: ws8000)
  from globalPeak_over_complete_windows[OF this, of "replicate 24000 (1 / 2) @ [1]"]
  show ?thesis by (simp add: ws8000 totalWindows_def)
qed

text \<open>
  Claim C4 as stated fails on 24001 samples at 8000 Hz (3.000125 s, so both duration
  checks pass): 60 windows of 400 samples at level \<open>1/4\<close> and one trailing sample \<open>3/4\<close>.
  The largest absolute sample of the signal is \<open>3/4\<close>, the peak of the classifier \<open>1/4\<close>.
\<close>

theorem trailing_sample_peak_counterexample:
  "globalPeak (windowStats (replicate 24000 (1 / 4) @ [3 / 4]) 8000) = 1 / 4 \<and>
   Max ((\<lambda>x. \<bar>x\<bar>) ` set (replicate 24000 (1 / 4) @ [3 / 4 :: real])) = 3 / 4 \<and>
   3 \<le> duration \<lparr>sampleRate = 8000, channels = [replicate 24000 (1 / 4) @ [3 / 4]]\<rparr> \<and>
   duration \<lparr>sampleRate = 8000, channels = [replicate 24000 (1 / 4) @ [3 / 4]]\<rparr> \<le> 300"
  by (simp add: windowStats_closed peakOver_def ws8000 totalWindows_def duration_def
      frameCount_def)

text \<open>
  Claim C5, as amended. For a window size that is not 0, \<open>quietRatio\<close> is the number
  of windows below
  \<open>dynamicThreshold = max(avgRMS * 0.4, 0.02)\<close> among the interior windows (every
  window but the first and the last, which the rhythm loop does not visit), divided
  by the count of all windows.
\<close>

theorem quietRatio_counts_interior_windows:
  assumes "0 < windowSizeSamples rate"
  shows "quietRatio data rate =
     real (length (filter (\<lambda>rms. rms < max (avgRMS data rate * 0.4) 0.02)
                     (butlast (tl (windowRMSs (windowStats data rate)))))) /
     real (totalWindows data rate) \<and>
     length (windowRMSs (windowStats data rate)) = totalWindows data rate"
  using quietWindows_closed[of data rate]
  by (simp add: quietRatio_def dynamicThreshold_def windowRMSs_length)

theorem quietRatio_counts_interior_windows_witness:
  "quietRatio voiceData 8000 = 29 / 60"
proof -
  have "0 < windowSizeSamples 8000" by (simp add: ws8000)
  from quietRatio_counts_interior_windows[OF this, of voiceData]
  show ?thesis by (simp add: voice_stats voice_avg voice_tw voiceLevels_def)
qed

text \<open>
  Claim C5 as stated fails on three seconds at 8000 Hz whose first window is silent
  and whose other 59 windows are at level \<open>1/2\<close>: one window of 60 is below the
  threshold, but it is the first one, and \<open>quietRatio\<close> is 0.
\<close>

theorem first_window_quiet_counterexample:
  "quietRatio lateStartData 8000 = 0 \<and>
   real (length (filter (\<lambda>rms. rms < dynamicThreshold lateStartData 8000)
                   (windowRMSs (windowStats lateStartData 8000)))) /
     real (totalWindows lateStartData 8000) = 1 / 60 \<and>
   duration \<lparr>sampleRate = 8000, channels = [lateStartData]\<rparr> = 3"
proof -
  have ws: "windowSizeSamples 8000 = 400" "(0 :: nat) < 400" by (simp_all add: ws8000)
  have st: "windowStats lateStartData 8000 =
      \<lparr>globalPeak = peakOver 0 (0 # replicate 59 (1 / 2)),
       totalRMS = sum_list (map abs (0 # replicate 59 (1 / 2))),
       windowRMSs = map abs (0 # replicate 59 (1 / 2)),
       windowZCRs = map (\<lambda>v. 0) (0 # replicate 59 (1 / 2 :: real))\<rparr>"
    unfolding lateStartData_def by (rule windowStats_piecewise[OF ws])
  have "totalWindows lateStartData 8000 = length (0 # replicate 59 (1 / 2 :: real))"
    unfolding lateStartData_def by (rule totalWindows_piecewise[OF ws])
  then have tw: "totalWindows lateStartData 8000 = 60" by simp
  have avg: "avgRMS lateStartData 8000 = 59 / 120"
    by (simp add: avgRMS_def st tw sum_list_replicate)
  have thr: "dynamicThreshold lateStartData 8000 = 59 / 300"
    by (simp add: dynamicThreshold_def avg)
  have rm: "windowRMSs (windowStats lateStartData 8000) = 0 # replicate 59 (1 / 2)"
    by (simp add: st)
  have "butlast (replicate 59 (1 / 2 :: real)) = replicate 58 (1 / 2)"
    by (simp add: butlast_conv_take)
  then have q: "quietRatio lateStartData 8000 = 0"
    by (simp add: quietRatio_def quietWindows_closed rm thr)
  have a: "real (length (filter (\<lambda>rms. rms < dynamicThreshold lateStartData 8000)
                   (windowRMSs (windowStats lateStartData 8000)))) /
     real (totalWindows lateStartData 8000) = 1 / 60"
    by (simp add: rm thr tw)
  have "length lateStartData = 400 * length (0 # replicate 59 (1 / 2 :: real))"
    unfolding lateStartData_def by (rule length_piecewise)
  then have "length lateStartData = 24000" by simp
  then have d: "duration \<lparr>sampleRate = 8000, channels = [lateStartData]\<rparr> = 3"
    by (simp add: duration_def frameCount_def)
  show ?thesis by (intro conjI q a d)
qed

text \<open>
  Claim C8. Every buffer of the platform that lasts less than 3 seconds is rejected
  with score 0 and the "too short" reason, whatever its samples: the duration check is the
  first one, and nothing of the analysis runs before it.
\<close>

theorem short_buffer_rejected:
  assumes "wellFormed b" and "duration b < 3"
  shows "analyzeAudioQuality b =
           Returns \<lparr>valid = False, reason = Some msgTooShort, score = 0\<rparr>"
proof -
  from assms(1) obtain data rest where "channels b = data # rest"
    by (cases "channels b") (simp_all add: wellFormed_def)
  then show ?thesis using assms(2) by (simp add: analyzeAudioQuality_def invalid_def)
qed

theorem short_buffer_rejected_witness:
  "analyzeAudioQuality \<lparr>sampleRate = 24000, channels = [replicate 48000 1]\<rparr> =
     Returns \<lparr>valid = False, reason = Some msgTooShort, score = 0\<rparr>"
  by (rule short_buffer_rejected)
    (simp_all add: wellFormed_def frameCount_def duration_def)

text \<open>
  Claim C9. Every result the classifier returns is well-formed: the score is a whole
  number from 0 to 100, and the reason is present exactly when the result is invalid.
\<close>

theorem result_well_formed:
  assumes "wellFormed b" and "analyzeAudioQuality b = Returns r"
  shows "0 \<le> score r \<and> score r \<le> 100 \<and> (reason r \<noteq> None) = (\<not> valid r)"
proof -
  from analyze_cases[OF assms(2)] show ?thesis
  proof
    assume "\<not> valid r \<and> reason r \<noteq> None \<and> score r = 0"
    then show ?thesis by simp
  next
    assume "\<exists>data. verdict data (sampleRate b) = Returns r"
    then obtain data where "verdict data (sampleRate b) = Returns r" ..
    from verdict_shape[OF this] show ?thesis by simp
  qed
qed

theorem result_well_formed_witness:
  "\<exists>r. wellFormed voiceBuffer \<and> analyzeAudioQuality voiceBuffer = Returns r \<and>
       0 \<le> score r \<and> score r \<le> 100 \<and> (reason r \<noteq> None) = (\<not> valid r)"
  using result_well_formed[OF voice_wellFormed voice_analysis] voice_wellFormed voice_analysis
  by blast

text \<open>
  Claim C10. A valid result carries a score of at least 20: the deductions sum to at
  most 80 from the base of 100, and only the computed score is returned as valid.
\<close>

theorem valid_score_at_least_20:
  assumes "wellFormed b" and "analyzeAudioQuality b = Returns r" and "valid r"
  shows "20 \<le> score r"
proof -
  from analyze_cases[OF assms(2)] assms(3)
  obtain data where "verdict data (sampleRate b) = Returns r" by auto
  from verdict_shape[OF this] assms(3) scoreOf_bounds[of data "sampleRate b"]
  show ?thesis by simp
qed

theorem valid_score_at_least_20_witness:
  "\<exists>r. wellFormed voiceBuffer \<and> analyzeAudioQuality voiceBuffer = Returns r \<and> valid r \<and>
       20 \<le> score r"
proof -
  let ?r = "\<lparr>valid = True, reason = None, score = 80\<rparr>"
  have v: "valid ?r" by simp
  from valid_score_at_least_20[OF voice_wellFormed voice_analysis v] voice_wellFormed
    voice_analysis v
  show ?thesis by blast
qed

end
